theory Spec2Isabelle
  imports Main "HOL-Library.AList"
begin

section \<open>JavaScript values\<close>

text \<open>
  The record manager stores plain JavaScript data. A value is one of the primitives, an
  array, a plain object (its own enumerable properties in insertion order), a \<open>Map\<close>
  (its entries in insertion order) or a \<open>Set\<close>. Numbers are integers: no claim
  verified here does arithmetic, and \<open>NaN\<close> and the infinities are not represented.

  The program uses plain objects as tables keyed by a caller's string: the record
  stores by id, a row of the table of watches by field name, a record by the keys of a
  path. A read \<open>obj[k]\<close> of such a table finds the properties the object has itself
  and, failing those, the members it inherits from \<open>Object.prototype\<close>. These are
  part of the model: \<open>JFunction k\<close> is the built-in function that is inherited under
  the name \<open>k\<close> (\<open>toString\<close>, \<open>valueOf\<close>, \<open>constructor\<close>, ...), and
  \<open>JPrototype\<close> is a prototype object, which is what the name \<open>__proto__\<close> reads
  as. What arrays, strings, functions, maps and sets have beyond the members of
  \<open>Object.prototype\<close> (an array's methods, a function's name, the size of a map) is
  not modelled and reads as \<open>undefined\<close>, and the functions with which they shadow
  \<open>toString\<close> and the like are not told apart from those of \<open>Object.prototype\<close>.

  An array is the list of its elements. A write at an index that is not an array
  index gives the array a named property; \<open>JArrProps\<close> is an array with such
  properties.

  Objects are values, not references: property getters and setters and object identity
  are outside the model. In particular the prototype of an object is never replaced,
  which in JavaScript is what an assignment to the key \<open>__proto__\<close> does: here that
  key is assigned like any other, so the model follows the program for ids, keys and
  field names other than \<open>__proto__\<close>.
\<close>

datatype jsval = JUndefined | JNull | JBool bool | JNum int | JStr string
  | JArr "jsval list" | JObj "(string \<times> jsval) list"
  | JMap "(jsval \<times> jsval) list" | JSet "jsval list"
  | JFunction string | JPrototype string
  | JArrProps "jsval list" "(string \<times> jsval) list"

type_synonym fields = "(string \<times> jsval) list"

definition isNullish :: "jsval \<Rightarrow> bool" where
  "isNullish value = (value = JNull \<or> value = JUndefined)"

datatype jstype = TUndefined | TObject | TBoolean | TNumber | TString | TFunction

fun typeof :: "jsval \<Rightarrow> jstype" where
  "typeof JUndefined = TUndefined"
| "typeof JNull = TObject"
| "typeof (JBool _) = TBoolean"
| "typeof (JNum _) = TNumber"
| "typeof (JStr _) = TString"
| "typeof (JArr _) = TObject"
| "typeof (JObj _) = TObject"
| "typeof (JMap _) = TObject"
| "typeof (JSet _) = TObject"
| "typeof (JFunction _) = TFunction"
| "typeof (JPrototype _) = TObject"
| "typeof (JArrProps _ _) = TObject"

definition digit_char :: "nat \<Rightarrow> char" where
  "digit_char n = char_of (48 + n)"

fun show_nat :: "nat \<Rightarrow> string" where
  "show_nat n = (if n < 10 then [digit_char n] else show_nat (n div 10) @ [digit_char (n mod 10)])"

declare show_nat.simps [simp del]

definition indexKeys :: "nat \<Rightarrow> string list" where
  "indexKeys n = map show_nat [0..<n]"

text \<open>The own properties of an array that are its elements.\<close>

definition elementEntries :: "jsval list \<Rightarrow> fields" where
  "elementEntries xs = zip (indexKeys (length xs)) xs"

text \<open>
  \<open>ownEntries\<close> is \<open>Object.entries\<close>, and what the spread \<open>{...v}\<close> copies: the own
  enumerable properties.
\<close>

fun ownEntries :: "jsval \<Rightarrow> fields" where
  "ownEntries (JObj fs) = fs"
| "ownEntries (JArr xs) = elementEntries xs"
| "ownEntries (JArrProps xs ps) = elementEntries xs @ ps"
| "ownEntries (JStr s) = zip (indexKeys (length s)) (map (\<lambda>c. JStr [c]) s)"
| "ownEntries _ = []"

definition ownKeys :: "jsval \<Rightarrow> string list" where
  "ownKeys v = map fst (ownEntries v)"

text \<open>
  The members of \<open>Object.prototype\<close>: its functions, and the accessor
  \<open>__proto__\<close>, which reads as the prototype of the value it is read from.
  \<open>Function.prototype\<close> is itself a function.
\<close>

definition objectPrototypeNames :: "string list" where
  "objectPrototypeNames =
     [''constructor'', ''__defineGetter__'', ''__defineSetter__'', ''hasOwnProperty'',
      ''__lookupGetter__'', ''__lookupSetter__'', ''isPrototypeOf'', ''propertyIsEnumerable'',
      ''toString'', ''valueOf'', ''toLocaleString'']"

fun prototypeOf :: "jsval \<Rightarrow> jsval" where
  "prototypeOf (JObj _) = JPrototype ''Object''"
| "prototypeOf (JArr _) = JPrototype ''Array''"
| "prototypeOf (JArrProps _ _) = JPrototype ''Array''"
| "prototypeOf (JStr _) = JPrototype ''String''"
| "prototypeOf (JNum _) = JPrototype ''Number''"
| "prototypeOf (JBool _) = JPrototype ''Boolean''"
| "prototypeOf (JMap _) = JPrototype ''Map''"
| "prototypeOf (JSet _) = JPrototype ''Set''"
| "prototypeOf (JFunction n) =
     (if n = ''Function.prototype'' then JPrototype ''Object'' else JFunction ''Function.prototype'')"
| "prototypeOf (JPrototype l) = (if l = ''Object'' then JNull else JPrototype ''Object'')"
| "prototypeOf _ = JUndefined"

text \<open>
  \<open>inherited v k\<close> is what \<open>v[k]\<close> gives when \<open>k\<close> is not a property of \<open>v\<close>
  itself. (A read of a property of \<open>null\<close> or \<open>undefined\<close> throws; the program
  guards each of its reads, and the case is here only to make the function total.)
\<close>

definition inherited :: "jsval \<Rightarrow> string \<Rightarrow> jsval" where
  "inherited v k =
     (if isNullish v then JUndefined
      else if k = ''__proto__'' then prototypeOf v
      else if k \<in> set objectPrototypeNames then JFunction k
      else JUndefined)"

text \<open>The names under which a plain object inherits something.\<close>

definition inheritedName :: "string \<Rightarrow> bool" where
  "inheritedName k = (k = ''__proto__'' \<or> k \<in> set objectPrototypeNames)"

fun ownProp :: "jsval \<Rightarrow> string \<Rightarrow> jsval option" where
  "ownProp (JArr xs) k =
     (if k = ''length'' then Some (JNum (int (length xs))) else map_of (elementEntries xs) k)"
| "ownProp (JArrProps xs ps) k =
     (if k = ''length'' then Some (JNum (int (length xs))) else map_of (elementEntries xs @ ps) k)"
| "ownProp (JStr s) k =
     (if k = ''length'' then Some (JNum (int (length s))) else map_of (ownEntries (JStr s)) k)"
| "ownProp v k = map_of (ownEntries v) k"

definition getProp :: "jsval \<Rightarrow> string \<Rightarrow> jsval" where
  "getProp v k = (case ownProp v k of Some x \<Rightarrow> x | None \<Rightarrow> inherited v k)"

definition isObject :: "jsval \<Rightarrow> bool" where
  "isObject v = (typeof v = TObject \<and> v \<noteq> JNull)"

fun joinWith :: "string \<Rightarrow> string list \<Rightarrow> string" where
  "joinWith sep [] = []"
| "joinWith sep [x] = x"
| "joinWith sep (x # y # ys) = x @ sep @ joinWith sep (y # ys)"

definition coalesce :: "jsval \<Rightarrow> jsval \<Rightarrow> jsval" where
  "coalesce v d = (if isNullish v then d else v)"

definition validate :: "bool \<Rightarrow> jsval \<Rightarrow> jsval" where
  "validate allowNullish val = (if allowNullish \<and> isNullish val then JNull else val)"

definition uniqueKeys :: "string list \<Rightarrow> string list" where
  "uniqueKeys ks = rev (remdups (rev ks))"

text \<open>
  The depth of a value, for the termination of the walk below: a property of an
  object lies less deep than the object, and so does its prototype.
\<close>

fun rank :: "jsval \<Rightarrow> nat" where
  "rank (JPrototype l) = (if l = ''Object'' then 0 else 1)"
| "rank v = 2 + size v"

lemma size_map_of: "map_of fs k = Some x \<Longrightarrow> size (x::jsval) < size (JObj fs)"
  by (induction fs) (auto split: if_splits)

lemma size_in_set: "x \<in> set xs \<Longrightarrow> size (x::jsval) < size (JArr xs)"
  by (induction xs) auto

lemma rank_le: "rank v \<le> 2 + size v"
  by (cases v) auto

lemma elementEntries_SomeD: "map_of (elementEntries xs) k = Some x \<Longrightarrow> x \<in> set xs"
  unfolding elementEntries_def by (auto dest!: map_of_SomeD set_zip_rightD)

lemma ownProp_size:
  assumes "ownProp v k = Some x" and "isObject x"
  shows "size x < size v"
proof (cases v)
  case (JObj fs)
  with assms show ?thesis by (auto dest: size_map_of)
next
  case (JArr xs)
  with assms show ?thesis
    by (auto simp: isObject_def split: if_splits dest!: elementEntries_SomeD size_in_set)
next
  case (JArrProps xs ps)
  have "size y < size (JArrProps xs ps)" if "y \<in> set xs" for y
    using that by (induction xs) auto
  moreover have "size y < size (JArrProps xs ps)" if "map_of ps k = Some y" for y
    using that by (induction ps) (auto split: if_splits)
  ultimately show ?thesis using assms JArrProps
    by (auto simp: isObject_def map_add_Some_iff split: if_splits dest!: elementEntries_SomeD)
next
  case (JStr s)
  with assms show ?thesis
    by (auto simp: isObject_def split: if_splits dest!: map_of_SomeD set_zip_rightD)
qed (use assms in \<open>auto simp: isObject_def\<close>)

lemma getProp_rank:
  assumes "isObject (getProp v k)"
  shows "rank (getProp v k) < rank v"
proof (cases "ownProp v k")
  case (Some x)
  then have "size x < size v" using assms ownProp_size[of v k x] by (simp add: getProp_def)
  moreover have "rank x \<le> 2 + size x" by (rule rank_le)
  moreover have "rank v = 2 + size v" using Some by (cases v) auto
  ultimately show ?thesis using Some by (simp add: getProp_def)
next
  case None
  then show ?thesis using assms
    by (cases v) (auto simp: getProp_def inherited_def isObject_def isNullish_def split: if_splits)
qed

function diffWalk :: "jsval \<Rightarrow> jsval \<Rightarrow> string list \<Rightarrow> bool \<Rightarrow> fields \<Rightarrow> fields \<times> fields"
  and diffKeys :: "jsval \<Rightarrow> jsval \<Rightarrow> string list \<Rightarrow> bool \<Rightarrow> string list \<Rightarrow> fields \<Rightarrow> fields \<Rightarrow> fields \<times> fields"
where
  "diffWalk prev0 next0 path allowNullish acc =
     (let prev = coalesce prev0 (JObj []); nxt = coalesce next0 (JObj [])
      in diffKeys prev nxt path allowNullish (uniqueKeys (ownKeys prev @ ownKeys nxt)) [] acc)"
| "diffKeys prev nxt path allowNullish [] result acc = (result, acc)"
| "diffKeys prev nxt path allowNullish (key # keys) result acc =
     (let newPath = path @ [key];
          value1 = validate allowNullish (getProp prev key);
          value2 = validate allowNullish (getProp nxt key)
      in if isObject value1 \<and> isObject value2
         then (case diffWalk value1 value2 newPath allowNullish acc of
                 (nestedDiff, acc') \<Rightarrow>
                   diffKeys prev nxt path allowNullish keys
                     (if nestedDiff \<noteq> [] then AList.update (joinWith ''/'' newPath) (JObj nestedDiff) result
                      else result) acc')
         else if value1 \<noteq> value2
         then diffKeys prev nxt path allowNullish keys
                (AList.update (joinWith ''/'' newPath) (JObj [(''next'', value2), (''prev'', value1)]) result)
                (AList.update (joinWith ''/'' newPath) (JObj [(''next'', value2), (''prev'', value1)]) acc)
         else diffKeys prev nxt path allowNullish keys result acc)"
  by pat_completeness auto
termination
  apply (relation "measures [\<lambda>x. case x of Inl (p, _) \<Rightarrow> rank (coalesce p (JObj [])) | Inr (p, _) \<Rightarrow> rank p,
                             \<lambda>x. case x of Inl _ \<Rightarrow> 1 | Inr _ \<Rightarrow> 0,
                             \<lambda>x. case x of Inl _ \<Rightarrow> 0 | Inr (_, _, _, _, ks, _) \<Rightarrow> length ks]")
       apply simp_all
  subgoal for prev nxt path allowNullish key
    using getProp_rank[of prev key]
    by (auto simp: validate_def coalesce_def isNullish_def isObject_def split: if_splits)
  done

definition diffObjectsDeep :: "jsval \<Rightarrow> jsval \<Rightarrow> fields" where
  "diffObjectsDeep prev nxt = snd (diffWalk prev nxt [] False [])"

definition isEqual :: "jsval \<Rightarrow> jsval \<Rightarrow> bool" where
  "isEqual a b =
     (if typeof a \<noteq> typeof b then False
      else if isNullish a \<and> isNullish b then True
      else if \<not> isNullish a \<and> isNullish b then False
      else if isNullish a \<and> \<not> isNullish b then False
      else if typeof a = TObject \<and> typeof b = TObject then length (map fst (diffObjectsDeep a b)) = 0
      else if typeof a = typeof b then a = b
      else False)"


section \<open>Property keys, truthiness and the helpers of the record manager\<close>

text \<open>
  \<open>truthy\<close> is JavaScript's boolean coercion, used by \<open>||\<close>, \<open>!\<close> and \<open>&&\<close>.
  \<open>toPropertyKey\<close> is the string a value becomes when it is used as a property name
  (\<open>recordRaw[item.id]\<close>); record types extend \<open>IdObj\<close>, so an id is a string and
  the other cases only make the model total.
\<close>

fun truthy :: "jsval \<Rightarrow> bool" where
  "truthy JUndefined = False"
| "truthy JNull = False"
| "truthy (JBool b) = b"
| "truthy (JNum n) = (n \<noteq> 0)"
| "truthy (JStr s) = (s \<noteq> [])"
| "truthy _ = True"

definition show_int :: "int \<Rightarrow> string" where
  "show_int i = (if i < 0 then CHR ''-'' # show_nat (nat (- i)) else show_nat (nat i))"

fun toPropertyKey :: "jsval \<Rightarrow> string" where
  "toPropertyKey JUndefined = ''undefined''"
| "toPropertyKey JNull = ''null''"
| "toPropertyKey (JBool b) = (if b then ''true'' else ''false'')"
| "toPropertyKey (JNum n) = show_int n"
| "toPropertyKey (JStr s) = s"
| "toPropertyKey (JArr xs) =
     joinWith '','' (map (\<lambda>x. if x = JNull \<or> x = JUndefined then [] else toPropertyKey x) xs)"
| "toPropertyKey (JArrProps xs ps) =
     joinWith '','' (map (\<lambda>x. if x = JNull \<or> x = JUndefined then [] else toPropertyKey x) xs)"
| "toPropertyKey (JObj _) = ''[object Object]''"
| "toPropertyKey (JMap _) = ''[object Map]''"
| "toPropertyKey (JSet _) = ''[object Set]''"
| "toPropertyKey (JFunction n) = ''function '' @ n @ ''() { [native code] }''"
| "toPropertyKey (JPrototype _) = ''[object Object]''"

text \<open>\<open>v?.[k]\<close>: optional property access.\<close>

definition optProp :: "jsval \<Rightarrow> string \<Rightarrow> jsval" where
  "optProp v k = (if isNullish v then JUndefined else getProp v k)"

text \<open>
  A stored record is the list of its fields. A store (\<open>ByID<T | null>\<close>) is the list
  of its own entries, \<open>None\<close> for \<open>null\<close> and \<open>Some r\<close> for a record. Assignment
  \<open>store[k] = v\<close> is \<open>AList.update\<close> (in place for a key that exists, appended
  otherwise) and \<open>delete store[k]\<close> is \<open>AList.delete\<close>. The read \<open>store[k]\<close> is
  \<open>storeGet\<close>: the store is a plain object behind a reactive proxy, so a key that it
  does not hold reads as what the store inherits under that name, which is
  \<open>undefined\<close> for all names but those of the members of \<open>Object.prototype\<close>.
\<close>

type_synonym 'a byId = "(string \<times> 'a) list"

definition entryVal :: "fields option option \<Rightarrow> jsval" where
  "entryVal e = (case e of None \<Rightarrow> JUndefined | Some None \<Rightarrow> JNull | Some (Some r) \<Rightarrow> JObj r)"

definition storeGet :: "fields option byId \<Rightarrow> string \<Rightarrow> jsval" where
  "storeGet store k =
     (case map_of store k of
        Some e \<Rightarrow> entryVal (Some e)
      | None \<Rightarrow> inherited (JObj []) k)"

definition isItemWithComputed :: "fields \<Rightarrow> bool" where
  "isItemWithComputed i =
     (\<not> isNullish (optProp (JObj i) ''computed'') \<and> ''computed'' \<in> set (map fst i))"

text \<open>
  \<open>itemWithComputedToRaw\<close> works on the copy \<open>{..._item}\<close> of its argument:
  \<open>spreadItem\<close> is that copy, for whatever value the argument is.
\<close>

definition spreadItem :: "jsval \<Rightarrow> fields option" where
  "spreadItem v = (if isNullish v then None else Some (ownEntries v))"

definition itemWithComputedToRaw :: "fields option \<Rightarrow> fields option" where
  "itemWithComputedToRaw item0 =
     (case item0 of
        None \<Rightarrow> None
      | Some i \<Rightarrow>
          (let item = AList.delete ''computed'' i
           in if length (map snd item) = 0 then None else Some item))"

definition extractTarget :: "jsval \<Rightarrow> (string \<Rightarrow> jsval) \<Rightarrow> jsval" where
  "extractTarget targetOrID getter =
     (case targetOrID of
        JStr rid \<Rightarrow> coalesce (getter rid) JUndefined
      | _ \<Rightarrow> targetOrID)"

definition fromEntries :: "fields \<Rightarrow> fields" where
  "fromEntries es = foldl (\<lambda>acc (k, v). AList.update k v acc) [] es"

section \<open>The record manager: configuration and state\<close>

text \<open>
  A derivation (\<open>GenericGetter\<close>) takes the raw lookup, then a target or id and any
  extra arguments. Derivations are taken to be pure functions of these, as the
  record manager's documentation presents them; a derivation that throws or writes to the manager
  is outside the model.

  The state holds the two reactive record stores, the cache metadata, the table of
  watches (one pair per watch that \<open>watch(...)\<close> created, in creation order), the
  log of derivation invocations, and the clock that \<open>Date.now()\<close> reads.
\<close>

type_synonym derivation = "(string \<Rightarrow> jsval) \<Rightarrow> jsval \<Rightarrow> jsval list \<Rightarrow> jsval"

record config =
  persist :: bool
  ttl :: "int option"
  computedGetters :: "derivation byId"

record state =
  recordRaw :: "fields option byId"
  recordWithComputeds :: "fields option byId"
  cacheMeta :: "int option byId"
  watches :: "(string \<times> string) list"
  invoked :: "(string \<times> jsval \<times> jsval list) list"
  clock :: int

definition DEFAULT_TTL :: int where
  "DEFAULT_TTL = 1000 * 60 * 60 * 24 * 7"

definition effectiveTtl :: "config \<Rightarrow> int" where
  "effectiveTtl cfg = (case ttl cfg of None \<Rightarrow> DEFAULT_TTL | Some t \<Rightarrow> if t = 0 then DEFAULT_TTL else t)"

text \<open>\<open>recordRaw[id] ?? null\<close>.\<close>

definition recordRawGetter :: "state \<Rightarrow> string \<Rightarrow> jsval" where
  "recordRawGetter st rid = coalesce (storeGet (recordRaw st) rid) JNull"

text \<open>\<open>recordWithComputeds[id]?.computed\<close> and \<open>recordWithComputeds[id]?.computed?.[k]\<close>.\<close>

definition computedOf :: "state \<Rightarrow> string \<Rightarrow> jsval" where
  "computedOf st rid = optProp (storeGet (recordWithComputeds st) rid) ''computed''"

definition cachedSlot :: "state \<Rightarrow> string \<Rightarrow> string \<Rightarrow> jsval" where
  "cachedSlot st rid k = optProp (computedOf st rid) k"

text \<open>
  \<open>computedGetters[k]?.(recordRawGetter)(target, ...args)\<close>: the derivation is
  applied to the current raw lookup, and the call is logged. The program reaches this
  call only with the name of a declared derivation.
\<close>

definition invoke :: "config \<Rightarrow> string \<Rightarrow> jsval \<Rightarrow> jsval list \<Rightarrow> state \<Rightarrow> jsval \<times> state" where
  "invoke cfg k target args st =
     (case map_of (computedGetters cfg) k of
        None \<Rightarrow> (JUndefined, st)
      | Some fn \<Rightarrow> (fn (recordRawGetter st) target args,
                   st\<lparr>invoked := invoked st @ [(k, target, args)]\<rparr>))"

section \<open>The computed-value engine\<close>

text \<open>
  The callback of the watch that \<open>watchGetter\<close> registers. It returns whether it
  assigned \<open>result.value\<close>, and the state.
\<close>

definition watchCallback :: "string \<Rightarrow> string \<Rightarrow> jsval \<Rightarrow> state \<Rightarrow> bool \<times> state" where
  "watchCallback rid k newVal st =
     (let oldVal = cachedSlot st rid k
      in if isEqual oldVal newVal then (False, st)
         else (True,
           st\<lparr>recordWithComputeds :=
                AList.update rid
                  (Some (AList.update ''computed''
                           (JObj (AList.update k newVal (ownEntries (computedOf st rid))))
                           (ownEntries (storeGet (recordWithComputeds st) rid))))
                  (recordWithComputeds st)\<rparr>))"

text \<open>
  \<open>watches.get(id)?.[k]\<close>, as a condition. The table of watches is a \<open>Map\<close> from an
  id to a row, a plain object with one field per watch of that id. The read finds a
  watch when the row has the field \<open>k\<close>, and it also finds something, a member of
  \<open>Object.prototype\<close>, when the id has a row and \<open>k\<close> is the name of such a member.
\<close>

definition existingWatcher :: "state \<Rightarrow> string \<Rightarrow> string \<Rightarrow> bool" where
  "existingWatcher st rid k =
     ((rid, k) \<in> set (watches st)
      \<or> (rid \<in> set (map fst (watches st)) \<and> truthy (inherited (JObj []) k)))"

text \<open>
  \<open>watchGetter\<close> returns \<open>result.value\<close> as it is when the function returns. The
  watch is created with \<open>immediate: true\<close>, so its getter and callback run once
  inside \<open>watch(...)\<close>, before the watch is entered in the table.
\<close>

definition watchGetter :: "config \<Rightarrow> string \<Rightarrow> string \<Rightarrow> state \<Rightarrow> jsval \<times> state" where
  "watchGetter cfg rid k st =
     (if existingWatcher st rid k then (cachedSlot st rid k, st)
      else (case invoke cfg k (JStr rid) [] st of
              (newVal, st1) \<Rightarrow>
                (case watchCallback rid k newVal st1 of
                   (assigned, st2) \<Rightarrow>
                     (if assigned then newVal else JNull,
                      st2\<lparr>watches := watches st2 @ [(rid, k)]\<rparr>))))"

text \<open>
  A later run of a registered watch: Vue re-evaluates the watched getter and, the
  watch being deep, calls the callback with the new value. When Vue schedules the run
  is not part of the model: \<open>fireWatch\<close> may happen between any two operations.
\<close>

definition fireWatch :: "config \<Rightarrow> string \<Rightarrow> string \<Rightarrow> state \<Rightarrow> state" where
  "fireWatch cfg rid k st =
     (if (rid, k) \<in> set (watches st)
      then (case invoke cfg k (JStr rid) [] st of (newVal, st1) \<Rightarrow> snd (watchCallback rid k newVal st1))
      else st)"

text \<open>
  \<open>initComputeds\<close> maps its callback, \<open>initComputedField\<close>, over the declared
  derivations in order. The callback's last line in the source, a direct call of the
  derivation, is reached only when neither of the two tests of the same expression
  holds, which is never.
\<close>

definition initComputedField :: "config \<Rightarrow> string \<Rightarrow> fields option \<Rightarrow> string \<Rightarrow> state \<Rightarrow> jsval \<times> state" where
  "initComputedField cfg rid item fnName st =
     (if item = None then (JNull, st)
      else if \<not> existingWatcher st rid fnName then watchGetter cfg rid fnName st
      else (cachedSlot st rid fnName, st))"

fun initEntries :: "config \<Rightarrow> string \<Rightarrow> fields option \<Rightarrow> string list \<Rightarrow> state \<Rightarrow> fields \<times> state" where
  "initEntries cfg rid item [] st = ([], st)"
| "initEntries cfg rid item (fnName # rest) st =
     (case initComputedField cfg rid item fnName st of
        (v, st1) \<Rightarrow>
          (case initEntries cfg rid item rest st1 of
             (vs, st2) \<Rightarrow> ((fnName, v) # vs, st2)))"

definition initComputeds :: "config \<Rightarrow> string \<Rightarrow> fields option \<Rightarrow> state \<Rightarrow> fields \<times> state" where
  "initComputeds cfg rid item st =
     (case initEntries cfg rid item (map fst (computedGetters cfg)) st of
        (es, st') \<Rightarrow> (fromEntries es, st'))"

definition setRecordItem :: "config \<Rightarrow> string \<Rightarrow> fields option \<Rightarrow> state \<Rightarrow> state" where
  "setRecordItem cfg rid value st =
     (case value of
        None \<Rightarrow>
          (let st1 = st\<lparr>recordWithComputeds := AList.update rid None (recordWithComputeds st)\<rparr>
           in st1\<lparr>recordRaw := AList.update rid None (recordRaw st1)\<rparr>)
      | Some v \<Rightarrow>
          (let raw = (if isItemWithComputed v then itemWithComputedToRaw (Some v) else Some v);
               st1 = st\<lparr>recordRaw := AList.update rid raw (recordRaw st)\<rparr>
           in case raw of
                None \<Rightarrow> st1\<lparr>recordWithComputeds := AList.update rid None (recordWithComputeds st1)\<rparr>
              | Some r \<Rightarrow>
                  (case initComputeds cfg rid (Some r) st1 of
                     (computedVals, st2) \<Rightarrow>
                       (let withComputed = AList.update ''computed'' (JObj computedVals) r;
                            st3 = st2\<lparr>recordWithComputeds :=
                                        AList.update rid (Some withComputed) (recordWithComputeds st2)\<rparr>
                        in if persist cfg
                           then st3\<lparr>cacheMeta :=
                                      AList.update rid (Some (clock st3 + effectiveTtl cfg)) (cacheMeta st3)\<rparr>
                           else st3))))"

fun watchComputedGetters' :: "config \<Rightarrow> string \<Rightarrow> string list \<Rightarrow> state \<Rightarrow> state" where
  "watchComputedGetters' cfg rid [] st = st"
| "watchComputedGetters' cfg rid (k # ks) st = watchComputedGetters' cfg rid ks (snd (watchGetter cfg rid k st))"

definition watchComputedGetters :: "config \<Rightarrow> string \<Rightarrow> state \<Rightarrow> state" where
  "watchComputedGetters cfg rid st = watchComputedGetters' cfg rid (map fst (computedGetters cfg)) st"

definition setAndWatchGetters :: "config \<Rightarrow> string \<Rightarrow> fields option \<Rightarrow> state \<Rightarrow> state" where
  "setAndWatchGetters cfg rid item st =
     (let isCurrentlyWatching = (rid \<in> set (map fst (watches st)))
      in if length (map fst (computedGetters cfg)) = 0 \<or> item = None \<or> isCurrentlyWatching
         then setRecordItem cfg rid item st
         else (case initComputeds cfg rid item st of
                 (itemComputed, st1) \<Rightarrow>
                   if isEqual (JObj itemComputed) (computedOf st1 rid)
                   then setRecordItem cfg rid item st1
                   else watchComputedGetters cfg rid
                          (setRecordItem cfg rid
                             (map_option (AList.update ''computed'' (JObj itemComputed)) item) st1)))"

section \<open>Nested child assignment\<close>

text \<open>
  \<open>path.split('/')\<close> and \<open>parseInt(s, 10)\<close>. \<open>parseInt\<close> skips leading white
  space, reads an optional sign and the longest run of decimal digits, and is
  \<open>NaN\<close> (\<open>None\<close>) when there is no digit.
\<close>

fun splitPath :: "string \<Rightarrow> string list" where
  "splitPath [] = [[]]"
| "splitPath (c # cs) =
     (if c = CHR ''/'' then [] # splitPath cs
      else (case splitPath cs of [] \<Rightarrow> [[c]] | w # ws \<Rightarrow> (c # w) # ws))"

definition isWhiteSpace :: "char \<Rightarrow> bool" where
  "isWhiteSpace c = ((of_char c :: nat) \<in> {9, 10, 11, 12, 13, 32})"

definition isDigit :: "char \<Rightarrow> bool" where
  "isDigit c = (48 \<le> (of_char c :: nat) \<and> (of_char c :: nat) \<le> 57)"

definition digitsValue :: "string \<Rightarrow> nat" where
  "digitsValue ds = foldl (\<lambda>a c. 10 * a + (of_char c - 48)) 0 ds"

definition parseInt :: "string \<Rightarrow> int option" where
  "parseInt s =
     (let s1 = dropWhile isWhiteSpace s;
          negative = (s1 \<noteq> [] \<and> hd s1 = CHR ''-'');
          s2 = (if s1 \<noteq> [] \<and> (hd s1 = CHR ''-'' \<or> hd s1 = CHR ''+'') then tl s1 else s1);
          ds = takeWhile isDigit s2
      in if ds = [] then None
         else Some (if negative then - int (digitsValue ds) else int (digitsValue ds)))"

text \<open>
  \<open>Array.isArray(v)\<close>, with the elements, and the read \<open>newArray[index]\<close> and the
  write \<open>newArray[index] = v\<close> of the copy \<open>[...elements]\<close>, which has the elements
  and no named property. A write at an array index (from 0 to \<open>2^32 - 2\<close>) past the end
  extends the array; the slots in between are holes in JavaScript and read as
  \<open>undefined\<close>, which is how they are stored here. A write at any other index,
  \<open>NaN\<close> or a negative number, does not touch the elements: it gives the array a
  property named by the number.
\<close>

fun arrayElements :: "jsval \<Rightarrow> jsval list option" where
  "arrayElements (JArr xs) = Some xs"
| "arrayElements (JArrProps xs ps) = Some xs"
| "arrayElements _ = None"

definition arrayGet :: "jsval list \<Rightarrow> int option \<Rightarrow> jsval" where
  "arrayGet xs index =
     (case index of
        None \<Rightarrow> JUndefined
      | Some i \<Rightarrow> if 0 \<le> i \<and> nat i < length xs then xs ! nat i else JUndefined)"

definition arraySet :: "jsval list \<Rightarrow> int option \<Rightarrow> jsval \<Rightarrow> jsval" where
  "arraySet xs index v =
     (case index of
        None \<Rightarrow> JArrProps xs [(''NaN'', v)]
      | Some i \<Rightarrow>
          if i < 0 \<or> 4294967295 \<le> i then JArrProps xs [(show_int i, v)]
          else if nat i < length xs then JArr (xs[nat i := v])
          else JArr (xs @ replicate (nat i - length xs) JUndefined @ [v]))"

definition orEmptyObject :: "jsval \<Rightarrow> jsval" where
  "orEmptyObject v = (if truthy v then v else JObj [])"

text \<open>
  \<open>setNestedChildOnRecord\<close> on the list of keys that \<open>path.split('/')\<close> gives, the
  first key apart. The source passes the remaining keys on by joining them with
  \<open>/\<close> and splitting them again in the recursive call, which gives the same keys
  back.
\<close>

fun setNestedKeys :: "jsval \<Rightarrow> string \<Rightarrow> string list \<Rightarrow> jsval \<Rightarrow> fields" where
  "setNestedKeys obj key [] value = AList.update key value (ownEntries obj)"
| "setNestedKeys obj key (k1 # rest) value =
     (let currentValue = getProp obj key
      in case arrayElements currentValue of
           Some newArray \<Rightarrow>
             (let index = parseInt k1
              in case rest of
                   [] \<Rightarrow> AList.update key (arraySet newArray index value) (ownEntries obj)
                 | k2 # rest' \<Rightarrow>
                     AList.update key
                       (arraySet newArray index
                          (JObj (setNestedKeys (orEmptyObject (arrayGet newArray index)) k2 rest' value)))
                       (ownEntries obj))
         | None \<Rightarrow>
             AList.update key
               (JObj (setNestedKeys (orEmptyObject currentValue) k1 rest value))
               (ownEntries obj))"

definition setNestedChildOnRecord :: "jsval \<Rightarrow> string \<Rightarrow> jsval \<Rightarrow> fields" where
  "setNestedChildOnRecord obj path value =
     setNestedKeys obj (hd (splitPath path)) (tl (splitPath path)) value"

section \<open>The manager's operations\<close>

text \<open>
  Each operation takes the state and returns the new one, with the value the
  JavaScript returns where there is one. Those that clash with a constant of HOL,
  and the others with them, carry the prefix \<open>manager_\<close>, as in \<open>manager.set\<close>.
  \<open>get\<close> and \<open>getRaw\<close> return what the store reads as under the id, which is a
  record, \<open>null\<close>, or what the store inherits under that name.
\<close>

definition manager_get :: "config \<Rightarrow> string \<Rightarrow> state \<Rightarrow> jsval \<times> state" where
  "manager_get cfg rid st =
     (let item = storeGet (recordWithComputeds st) rid;
          st1 = (if isNullish item then setRecordItem cfg rid None st else st)
      in (storeGet (recordWithComputeds st1) rid, st1))"

definition manager_getRaw :: "config \<Rightarrow> string \<Rightarrow> state \<Rightarrow> jsval \<times> state" where
  "manager_getRaw cfg rid st =
     (let item = storeGet (recordRaw st) rid;
          st1 = (if isNullish item then setRecordItem cfg rid None st else st)
      in (storeGet (recordRaw st1) rid, st1))"

text \<open>
  \<open>structuredClone(item) ?? null\<close>. \<open>structuredClone\<close> throws a \<open>DataCloneError\<close>
  for a function, and for a proxy: a record that is read from a reactive store is
  handed out as a proxy of the stored object. (The prototype that \<open>__proto__\<close> reads
  as is handed out as it is, and it has no enumerable property to copy.)
\<close>

datatype error = DataCloneError

fun structuredCloneRead :: "jsval \<Rightarrow> error + jsval" where
  "structuredCloneRead (JObj r) = Inl DataCloneError"
| "structuredCloneRead (JFunction n) = Inl DataCloneError"
| "structuredCloneRead (JPrototype l) = Inr (JObj [])"
| "structuredCloneRead v = Inr v"

definition manager_getRawClone :: "string \<Rightarrow> state \<Rightarrow> (error + jsval) \<times> state" where
  "manager_getRawClone rid st =
     (let item = storeGet (recordRaw st) rid
      in (case structuredCloneRead item of
            Inl e \<Rightarrow> Inl e
          | Inr clone \<Rightarrow> Inr (coalesce clone JNull), st))"

definition manager_set :: "config \<Rightarrow> fields \<Rightarrow> state \<Rightarrow> state" where
  "manager_set cfg item0 st =
     (let item = (if isItemWithComputed item0 then itemWithComputedToRaw (Some item0) else Some item0)
      in case item of
           None \<Rightarrow> st
         | Some i \<Rightarrow> setAndWatchGetters cfg (toPropertyKey (getProp (JObj i) ''id'')) (Some i) st)"

definition manager_setChildOf :: "config \<Rightarrow> string \<Rightarrow> string \<Rightarrow> jsval \<Rightarrow> state \<Rightarrow> state" where
  "manager_setChildOf cfg rid key value st =
     (let keyIsDirectKey = (CHR ''/'' \<notin> set key);
          entry = storeGet (recordWithComputeds st) rid
      in if \<not> truthy entry then st
         else (case itemWithComputedToRaw (spreadItem entry) of
                 None \<Rightarrow> st
               | Some explicit \<Rightarrow>
                   if keyIsDirectKey then manager_set cfg (AList.update key value explicit) st
                   else manager_set cfg (setNestedChildOnRecord (JObj explicit) key value) st))"

definition manager_unset :: "string \<Rightarrow> state \<Rightarrow> state" where
  "manager_unset rid st =
     (let st1 = st\<lparr>recordWithComputeds := AList.update rid None (recordWithComputeds st)\<rparr>;
          st2 = st1\<lparr>recordRaw := AList.update rid None (recordRaw st1)\<rparr>;
          st3 = st2\<lparr>cacheMeta := AList.update rid None (cacheMeta st2)\<rparr>;
          st4 = st3\<lparr>recordWithComputeds := AList.delete rid (recordWithComputeds st3)\<rparr>;
          st5 = st4\<lparr>recordRaw := AList.delete rid (recordRaw st4)\<rparr>
      in st5\<lparr>cacheMeta := AList.delete rid (cacheMeta st5)\<rparr>)"

text \<open>
  \<open>reset\<close> also removes the persisted blob from local storage, which is outside the
  state.
\<close>

definition manager_reset :: "state \<Rightarrow> state" where
  "manager_reset st = foldl (\<lambda>s rid. manager_unset rid s) st (map fst (recordWithComputeds st))"

definition manager_update :: "config \<Rightarrow> fields byId \<Rightarrow> state \<Rightarrow> state" where
  "manager_update cfg items st = foldl (\<lambda>s item. manager_set cfg item s) st (map snd items)"

definition manager_overwrite :: "config \<Rightarrow> fields byId \<Rightarrow> state \<Rightarrow> state" where
  "manager_overwrite cfg items st = manager_update cfg items (manager_reset st)"

definition manager_resetComputed :: "config \<Rightarrow> state \<Rightarrow> state" where
  "manager_resetComputed cfg st =
     foldl (\<lambda>s rid. watchComputedGetters cfg rid s) st (map fst (recordWithComputeds st))"

text \<open>
  \<open>manager.getters[name](maybeID, ...args)\<close>, one of \<open>cacheMappedComputedGetters\<close>.
  The result is \<open>None\<close> for a name that is not declared: the call then reaches none
  of the manager's code.
\<close>

definition cacheMappedComputedGetters ::
  "config \<Rightarrow> string \<Rightarrow> jsval \<Rightarrow> jsval list \<Rightarrow> state \<Rightarrow> (jsval \<times> state) option" where
  "cacheMappedComputedGetters cfg name maybeID args st =
     (case map_of (computedGetters cfg) name of
        None \<Rightarrow> None
      | Some fn \<Rightarrow>
          Some (if isNullish maybeID then invoke cfg name maybeID args st
                else (let rid = (case maybeID of JStr s \<Rightarrow> s | _ \<Rightarrow> toPropertyKey (getProp maybeID ''id''));
                          watcher = existingWatcher st rid name;
                          cached0 = cachedSlot st rid name
                      in case (if \<not> watcher
                               then (case watchGetter cfg rid name st of
                                       (result, st') \<Rightarrow> (if isNullish result then cached0 else result, st'))
                               else (cached0, st)) of
                           (cached, st1) \<Rightarrow>
                             if length args = 0 \<and> truthy cached then (cached, st1)
                             else invoke cfg name (JStr rid) args st1)))"

section \<open>Construction\<close>

text \<open>
  The reconciliation of persisted computed records with the raw store, and the
  eviction sweep, each a loop over the entries that the store has when the loop
  starts; \<open>reconcileEntry\<close> and \<open>cleanUpEntry\<close> are the loops' callbacks.
\<close>

definition reconcileEntry :: "state \<Rightarrow> string \<times> fields option \<Rightarrow> state" where
  "reconcileEntry st entry =
     (case entry of
        (rid, item) \<Rightarrow>
          (let raw = itemWithComputedToRaw item;
               existing = storeGet (recordRaw st) rid
           in if isEqual (entryVal (Some raw)) existing then st
              else st\<lparr>recordRaw := AList.update rid raw (recordRaw st)\<rparr>))"

definition reconcile :: "state \<Rightarrow> state" where
  "reconcile st = foldl reconcileEntry st (recordWithComputeds st)"

definition evict :: "string \<Rightarrow> state \<Rightarrow> state" where
  "evict rid st =
     (let st1 = st\<lparr>recordRaw := AList.delete rid (recordRaw st)\<rparr>;
          st2 = st1\<lparr>recordWithComputeds := AList.delete rid (recordWithComputeds st1)\<rparr>;
          st3 = st2\<lparr>cacheMeta := AList.delete rid (cacheMeta st2)\<rparr>;
          st4 = st3\<lparr>recordRaw := AList.update rid None (recordRaw st3)\<rparr>;
          st5 = st4\<lparr>recordWithComputeds := AList.update rid None (recordWithComputeds st4)\<rparr>
      in st5\<lparr>cacheMeta := AList.update rid None (cacheMeta st5)\<rparr>)"

definition cleanUpEntry :: "state \<Rightarrow> string \<times> int option \<Rightarrow> state" where
  "cleanUpEntry st entry =
     (case entry of
        (rid, recordCacheMeta) \<Rightarrow>
          (case recordCacheMeta of
             None \<Rightarrow> st
           | Some expires \<Rightarrow> if expires < clock st then evict rid st else st))"

definition cleanUpCache :: "state \<Rightarrow> state" where
  "cleanUpCache st = foldl cleanUpEntry st (cacheMeta st)"

text \<open>
  \<open>recordManager(meta)(computedGetters)\<close>. \<open>initial\<close> is \<open>meta.initial\<close>;
  \<open>persistedRecords\<close> and \<open>persistedMeta\<close> are what \<open>ls.reactive\<close> reads from local
  storage under the context's two keys (empty when nothing is stored) and \<open>now\<close> is
  the clock. \<open>reactive(meta.initial)\<close> wraps the object it is given, so the raw store
  and \<open>meta.initial\<close> are one object, and the last step, which iterates over
  \<open>Object.entries(meta.initial)\<close>, reads the raw store as the steps before have left it.
\<close>

definition construct ::
  "config \<Rightarrow> fields option byId option \<Rightarrow> fields option byId \<Rightarrow> int option byId \<Rightarrow> int \<Rightarrow> state" where
  "construct cfg initial persistedRecords persistedMeta now =
     (let st0 = \<lparr>recordRaw = (case initial of None \<Rightarrow> [] | Some i \<Rightarrow> i),
                 recordWithComputeds = (if persist cfg then persistedRecords else []),
                 cacheMeta = [], watches = [], invoked = [], clock = now\<rparr>;
          st1 = reconcile st0;
          st2 = st1\<lparr>cacheMeta := (if persist cfg then persistedMeta else [])\<rparr>;
          st3 = cleanUpCache st2
      in case initial of
           None \<Rightarrow> st3
         | Some _ \<Rightarrow> foldl (\<lambda>s (rid, item). setAndWatchGetters cfg rid item s) st3 (recordRaw st3))"

section \<open>Histories of a manager\<close>

text \<open>
  What can happen to a manager after its construction: a call of one of its
  operations, a getter call, a run of a registered watch (\<open>OpFire\<close>), or time
  passing. Calls that only read, and \<open>log\<close>, are left out. A call of a getter that
  is not declared leaves the state as it is.
\<close>

datatype op =
    OpSet fields
  | OpSetChildOf string string jsval
  | OpUpdate "fields byId"
  | OpOverwrite "fields byId"
  | OpUnset string
  | OpReset
  | OpGet string
  | OpGetRaw string
  | OpGetter string jsval "jsval list"
  | OpResetComputed
  | OpFire string string
  | OpTick nat

fun apply_op :: "config \<Rightarrow> op \<Rightarrow> state \<Rightarrow> state" where
  "apply_op cfg (OpSet item) st = manager_set cfg item st"
| "apply_op cfg (OpSetChildOf rid key v) st = manager_setChildOf cfg rid key v st"
| "apply_op cfg (OpUpdate items) st = manager_update cfg items st"
| "apply_op cfg (OpOverwrite items) st = manager_overwrite cfg items st"
| "apply_op cfg (OpUnset rid) st = manager_unset rid st"
| "apply_op cfg OpReset st = manager_reset st"
| "apply_op cfg (OpGet rid) st = snd (manager_get cfg rid st)"
| "apply_op cfg (OpGetRaw rid) st = snd (manager_getRaw cfg rid st)"
| "apply_op cfg (OpGetter name target args) st =
     (case cacheMappedComputedGetters cfg name target args st of
        None \<Rightarrow> st
      | Some (v, st') \<Rightarrow> st')"
| "apply_op cfg OpResetComputed st = manager_resetComputed cfg st"
| "apply_op cfg (OpFire rid k) st = fireWatch cfg rid k st"
| "apply_op cfg (OpTick d) st = st\<lparr>clock := clock st + int d\<rparr>"

fun run :: "config \<Rightarrow> op list \<Rightarrow> state \<Rightarrow> state" where
  "run cfg [] st = st"
| "run cfg (op # ops) st = run cfg ops (apply_op cfg op st)"

section \<open>An example manager\<close>

text \<open>
  A manager with one derivation,
  \<open>double = (raw) => (target) => (extractTarget(target, raw)?.x ?? 0) * 2\<close>
  on records with a numeric field \<open>x\<close>, built with no options; \<open>exItem n\<close> is the
  record \<open>{id: "a", x: n}\<close>.
\<close>

definition exDouble :: derivation where
  "exDouble raw target args =
     (case optProp (extractTarget target raw) ''x'' of JNum n \<Rightarrow> JNum (2 * n) | _ \<Rightarrow> JNum 0)"

definition exConfig :: config where
  "exConfig = \<lparr>persist = False, ttl = None, computedGetters = [(''double'', exDouble)]\<rparr>"

definition exEmpty :: state where
  "exEmpty = construct exConfig None [] [] 0"

definition exItem :: "int \<Rightarrow> fields" where
  "exItem n = [(''id'', JStr ''a''), (''x'', JNum n)]"

text \<open>The rows a store holds under one key.\<close>

definition rowsOf :: "'a byId \<Rightarrow> string \<Rightarrow> 'a list" where
  "rowsOf store rid = map snd (filter (\<lambda>entry. fst entry = rid) store)"


section \<open>What each step of the engine leaves alone\<close>

lemma exEmpty_eq:
  "exEmpty = \<lparr>recordRaw = [], recordWithComputeds = [], cacheMeta = [], watches = [],
     invoked = [], clock = 0\<rparr>"
  by (simp add: exEmpty_def construct_def reconcile_def cleanUpCache_def exConfig_def)

lemma rowsOf_update_absent:
  "rid \<notin> fst ` set al \<Longrightarrow> rowsOf (AList.update rid v al) rid = [v]"
  by (induction al) (auto simp: rowsOf_def)

lemma invoke_frame [simp]:
  "recordRaw (snd (invoke cfg k t a st)) = recordRaw st"
  "recordWithComputeds (snd (invoke cfg k t a st)) = recordWithComputeds st"
  "cacheMeta (snd (invoke cfg k t a st)) = cacheMeta st"
  "watches (snd (invoke cfg k t a st)) = watches st"
  "clock (snd (invoke cfg k t a st)) = clock st"
  by (simp_all add: invoke_def split: option.splits)

lemma watchCallback_frame [simp]:
  "recordRaw (snd (watchCallback rid k v st)) = recordRaw st"
  "cacheMeta (snd (watchCallback rid k v st)) = cacheMeta st"
  "watches (snd (watchCallback rid k v st)) = watches st"
  "invoked (snd (watchCallback rid k v st)) = invoked st"
  "clock (snd (watchCallback rid k v st)) = clock st"
  by (simp_all add: watchCallback_def Let_def)

lemma watchCallback_other:
  "r \<noteq> rid \<Longrightarrow>
   map_of (recordWithComputeds (snd (watchCallback rid k v st))) r = map_of (recordWithComputeds st) r"
  by (simp add: watchCallback_def Let_def update_conv')

lemma watchGetter_frame [simp]:
  "recordRaw (snd (watchGetter cfg rid k st)) = recordRaw st"
  "cacheMeta (snd (watchGetter cfg rid k st)) = cacheMeta st"
  "clock (snd (watchGetter cfg rid k st)) = clock st"
  by (simp_all add: watchGetter_def split: prod.splits)
     (metis invoke_frame watchCallback_frame snd_conv)+

text \<open>
  \<open>entryOf\<close> reads a store with \<open>?? null\<close>; \<open>rawOf\<close> is the record that
  \<open>setRecordItem\<close> writes to the raw store for a given argument.
\<close>

definition entryOf :: "fields option byId \<Rightarrow> string \<Rightarrow> fields option" where
  "entryOf store rid = (case map_of store rid of Some (Some r) \<Rightarrow> Some r | _ \<Rightarrow> None)"

definition rawOf :: "fields option \<Rightarrow> fields option" where
  "rawOf value = (case value of None \<Rightarrow> None
     | Some v \<Rightarrow> if isItemWithComputed v then itemWithComputedToRaw (Some v) else Some v)"

lemma inherited_plain_cases:
  "inherited (JObj []) k = JUndefined \<or> inherited (JObj []) k = JPrototype ''Object''
   \<or> inherited (JObj []) k = JFunction k"
  by (simp add: inherited_def isNullish_def)

lemma truthy_inherited: "truthy (inherited (JObj []) k) = inheritedName k"
  by (simp add: inherited_def inheritedName_def isNullish_def)

lemma inherited_undefined: "(inherited (JObj []) k = JUndefined) = (\<not> inheritedName k)"
  by (simp add: inherited_def inheritedName_def isNullish_def)

lemma isNullish_inherited: "isNullish (inherited (JObj []) k) = (\<not> inheritedName k)"
  by (simp add: inherited_def inheritedName_def isNullish_def)

lemma ownEntries_inherited [simp]: "ownEntries (inherited (JObj []) k) = []"
  using inherited_plain_cases[of k] by auto

lemma getProp_JObj [simp]:
  "getProp (JObj fs) k = (case map_of fs k of Some x \<Rightarrow> x | None \<Rightarrow> inherited (JObj fs) k)"
  by (simp add: getProp_def)

lemma inherited_computed [simp]: "inherited v ''computed'' = JUndefined"
  by (simp add: inherited_def objectPrototypeNames_def)

lemma inherited_id [simp]: "inherited v ''id'' = JUndefined"
  by (simp add: inherited_def objectPrototypeNames_def)

lemma getProp_inherited_computed [simp]: "getProp (inherited (JObj []) k) ''computed'' = JUndefined"
  using inherited_plain_cases[of k] by (auto simp: getProp_def)

lemma storeGet_own:
  "map_of store rid = Some e \<Longrightarrow> storeGet store rid = entryVal (Some e)"
  by (simp add: storeGet_def)

lemma storeGet_absent:
  "map_of store rid = None \<Longrightarrow> storeGet store rid = inherited (JObj []) rid"
  by (simp add: storeGet_def)


lemma computedOf_eq:
  "computedOf st rid =
     (case map_of (recordWithComputeds st) rid of
        Some (Some r) \<Rightarrow> (case map_of r ''computed'' of Some x \<Rightarrow> x | None \<Rightarrow> JUndefined)
      | _ \<Rightarrow> JUndefined)"
  by (simp add: computedOf_def storeGet_def entryVal_def optProp_def isNullish_def
      split: option.splits)

lemma watchGetter_watches:
  "watches (snd (watchGetter cfg rid k st)) =
     (if existingWatcher st rid k then watches st else watches st @ [(rid, k)])"
  by (simp add: watchGetter_def split: prod.splits)
     (metis invoke_frame(4) watchCallback_frame(3) snd_conv)

lemma watchGetter_other:
  "r \<noteq> rid \<Longrightarrow>
   map_of (recordWithComputeds (snd (watchGetter cfg rid k st))) r = map_of (recordWithComputeds st) r"
  by (simp add: watchGetter_def split: prod.splits)
     (metis invoke_frame(2) watchCallback_other snd_conv)

lemma initEntries_snd_Cons:
  "snd (initEntries cfg rid item (k # ks) st) =
   snd (initEntries cfg rid item ks (snd (initComputedField cfg rid item k st)))"
  by (simp split: prod.splits)

lemma initComputedField_cases:
  "snd (initComputedField cfg rid item k st) = st
   \<or> snd (initComputedField cfg rid item k st) = snd (watchGetter cfg rid k st)"
  by (simp add: initComputedField_def)

lemma initEntries_preserves:
  assumes step: "\<And>k s. P s \<Longrightarrow> P (snd (watchGetter cfg rid k s))"
  shows "P st \<Longrightarrow> P (snd (initEntries cfg rid item ks st))"
proof (induction ks arbitrary: st)
  case Nil
  then show ?case by simp
next
  case (Cons k ks)
  have "P (snd (initComputedField cfg rid item k st))"
    using initComputedField_cases[of cfg rid item k st] step[OF Cons.prems] Cons.prems by auto
  then show ?case
    by (simp only: initEntries_snd_Cons Cons.IH)
qed

lemma initComputeds_snd: "snd (initComputeds cfg rid item st) = snd (initEntries cfg rid item (map fst (computedGetters cfg)) st)"
  by (simp add: initComputeds_def split: prod.splits)

lemma initComputeds_preserves:
  assumes "\<And>k s. P s \<Longrightarrow> P (snd (watchGetter cfg rid k s))" and "P st"
  shows "P (snd (initComputeds cfg rid item st))"
  unfolding initComputeds_snd using assms by (rule initEntries_preserves)

lemma watchComputedGetters'_preserves:
  assumes step: "\<And>k s. P s \<Longrightarrow> P (snd (watchGetter cfg rid k s))"
  shows "P st \<Longrightarrow> P (watchComputedGetters' cfg rid ks st)"
  by (induction ks arbitrary: st) (simp_all add: step)

lemma watchComputedGetters_preserves:
  assumes "\<And>k s. P s \<Longrightarrow> P (snd (watchGetter cfg rid k s))" and "P st"
  shows "P (watchComputedGetters cfg rid st)"
  unfolding watchComputedGetters_def using assms by (rule watchComputedGetters'_preserves)

lemma initComputeds_frame [simp]:
  "recordRaw (snd (initComputeds cfg rid item st)) = recordRaw st"
  "cacheMeta (snd (initComputeds cfg rid item st)) = cacheMeta st"
  "clock (snd (initComputeds cfg rid item st)) = clock st"
  by (rule initComputeds_preserves[where P="\<lambda>s. recordRaw s = recordRaw st"], simp_all)
     (rule initComputeds_preserves[where P="\<lambda>s. cacheMeta s = cacheMeta st"], simp_all,
      rule initComputeds_preserves[where P="\<lambda>s. clock s = clock st"], simp_all)

lemma watchComputedGetters_frame [simp]:
  "recordRaw (watchComputedGetters cfg rid st) = recordRaw st"
  "cacheMeta (watchComputedGetters cfg rid st) = cacheMeta st"
  "clock (watchComputedGetters cfg rid st) = clock st"
  by (rule watchComputedGetters_preserves[where P="\<lambda>s. recordRaw s = recordRaw st"], simp_all)
     (rule watchComputedGetters_preserves[where P="\<lambda>s. cacheMeta s = cacheMeta st"], simp_all,
      rule watchComputedGetters_preserves[where P="\<lambda>s. clock s = clock st"], simp_all)

lemma initComputeds_other:
  "r \<noteq> rid \<Longrightarrow>
   map_of (recordWithComputeds (snd (initComputeds cfg rid item st))) r = map_of (recordWithComputeds st) r"
  by (rule initComputeds_preserves[where P="\<lambda>s. map_of (recordWithComputeds s) r = map_of (recordWithComputeds st) r"])
     (simp_all add: watchGetter_other)

lemma watchComputedGetters_other:
  "r \<noteq> rid \<Longrightarrow>
   map_of (recordWithComputeds (watchComputedGetters cfg rid st)) r = map_of (recordWithComputeds st) r"
  by (rule watchComputedGetters_preserves[where P="\<lambda>s. map_of (recordWithComputeds s) r = map_of (recordWithComputeds st) r"])
     (simp_all add: watchGetter_other)

lemma setRecordItem_None:
  "setRecordItem cfg rid None st =
     st\<lparr>recordWithComputeds := AList.update rid None (recordWithComputeds st),
        recordRaw := AList.update rid None (recordRaw st)\<rparr>"
  by (simp add: setRecordItem_def Let_def)

lemma setRecordItem_raw:
  "recordRaw (setRecordItem cfg rid value st) = AList.update rid (rawOf value) (recordRaw st)"
  by (simp add: setRecordItem_def rawOf_def Let_def case_prod_beta split: option.splits)

lemma setRecordItem_cacheMeta_other:
  "r \<noteq> rid \<Longrightarrow> map_of (cacheMeta (setRecordItem cfg rid value st)) r = map_of (cacheMeta st) r"
  by (simp add: setRecordItem_def rawOf_def Let_def case_prod_beta update_conv' split: option.splits)

lemma setRecordItem_clock [simp]:
  "clock (setRecordItem cfg rid value st) = clock st"
  by (simp add: setRecordItem_def rawOf_def Let_def case_prod_beta split: option.splits)

lemma setRecordItem_comp_other:
  "r \<noteq> rid \<Longrightarrow>
   map_of (recordWithComputeds (setRecordItem cfg rid value st)) r = map_of (recordWithComputeds st) r"
  by (simp add: setRecordItem_def rawOf_def Let_def case_prod_beta update_conv' initComputeds_other
      split: option.splits)


lemma setRecordItem_preserves:
  assumes "\<And>k s. P s \<Longrightarrow> P (snd (watchGetter cfg rid k s))"
    and "\<And>s f. P s \<Longrightarrow> P (s\<lparr>recordRaw := f\<rparr>)"
    and "\<And>s f. P s \<Longrightarrow> P (s\<lparr>recordWithComputeds := f\<rparr>)"
    and "\<And>s f. P s \<Longrightarrow> P (s\<lparr>cacheMeta := f\<rparr>)"
    and "P st"
  shows "P (setRecordItem cfg rid value st)"
  using assms
  by (simp add: setRecordItem_def Let_def case_prod_beta initComputeds_preserves split: option.splits)

lemma rawOf_plain:
  "''computed'' \<notin> fst ` set r \<Longrightarrow> rawOf (Some r) = Some r"
  by (auto simp: rawOf_def isItemWithComputed_def)

lemma rawOf_with_computed:
  "''computed'' \<notin> fst ` set r \<Longrightarrow> r \<noteq> [] \<Longrightarrow>
   rawOf (Some (AList.update ''computed'' (JObj c) r)) = Some r"
  by (simp add: rawOf_def isItemWithComputed_def optProp_def isNullish_def update_conv'
      itemWithComputedToRaw_def delete_update_same update_keys)

lemma setAndWatchGetters_raw_at:
  assumes "''computed'' \<notin> fst ` set r" and "r \<noteq> []"
  shows "map_of (recordRaw (setAndWatchGetters cfg rid (Some r) st)) rid = Some (Some r)"
  using assms
  by (simp add: setAndWatchGetters_def Let_def case_prod_beta setRecordItem_raw update_conv'
      rawOf_plain rawOf_with_computed)

lemma itemWithComputedToRaw_SomeD:
  assumes "itemWithComputedToRaw (Some e) = Some r"
  shows "r = AList.delete ''computed'' e" and "r \<noteq> []" and "''computed'' \<notin> fst ` set r"
proof -
  show 1: "r = AList.delete ''computed'' e" and "r \<noteq> []"
    using assms by (auto simp: itemWithComputedToRaw_def Let_def split: if_splits)
  show "''computed'' \<notin> fst ` set r"
    unfolding 1 by (rule delete_notin_dom)
qed

lemma manager_set_raw_at:
  assumes "''computed'' \<notin> fst ` set r" and "map_of r ''id'' = Some (JStr rid)"
  shows "map_of (recordRaw (manager_set cfg r st)) rid = Some (Some r)"
proof -
  have ne: "r \<noteq> []" using assms(2) by auto
  have "\<not> isItemWithComputed r" using assms(1) by (simp add: isItemWithComputed_def)
  then show ?thesis
    using assms ne by (simp add: manager_set_def Let_def setAndWatchGetters_raw_at)
qed

lemma getRaw_present:
  "map_of (recordRaw st) rid = Some (Some r) \<Longrightarrow> manager_getRaw cfg rid st = (JObj r, st)"
  by (simp add: manager_getRaw_def storeGet_def entryVal_def isNullish_def Let_def)


section \<open>The eviction sweep and the loops of construction\<close>

text \<open>An id is tombstoned when each of the three stores holds it with a null payload.\<close>

definition tombstoned :: "state \<Rightarrow> string \<Rightarrow> bool" where
  "tombstoned st rid =
     (map_of (recordRaw st) rid = Some None
      \<and> map_of (recordWithComputeds st) rid = Some None
      \<and> map_of (cacheMeta st) rid = Some None)"

lemma evict_tombstoned: "tombstoned (evict rid st) rid"
  by (simp add: tombstoned_def evict_def Let_def update_conv')

lemma evict_other:
  "r \<noteq> rid \<Longrightarrow> map_of (recordRaw (evict rid st)) r = map_of (recordRaw st) r"
  "r \<noteq> rid \<Longrightarrow> map_of (recordWithComputeds (evict rid st)) r = map_of (recordWithComputeds st) r"
  "r \<noteq> rid \<Longrightarrow> map_of (cacheMeta (evict rid st)) r = map_of (cacheMeta st) r"
  by (simp_all add: evict_def Let_def update_conv')

lemma evict_clock [simp]: "clock (evict rid st) = clock st"
  by (simp add: evict_def Let_def)

lemma cleanUpEntry_clock [simp]: "clock (cleanUpEntry st entry) = clock st"
  by (simp add: cleanUpEntry_def split: prod.splits option.splits)

lemma cleanUpEntry_keeps_tombstone:
  "tombstoned st rid \<Longrightarrow> tombstoned (cleanUpEntry st entry) rid"
proof (cases entry)
  case (Pair r m)
  assume t: "tombstoned st rid"
  show ?thesis
  proof (cases "r = rid")
    case True
    then show ?thesis using t Pair
      by (auto simp: cleanUpEntry_def evict_tombstoned split: option.splits)
  next
    case False
    then show ?thesis using t Pair
      by (auto simp: cleanUpEntry_def tombstoned_def evict_other split: option.splits)
  qed
qed

lemma sweep_clock [simp]: "clock (foldl cleanUpEntry st es) = clock st"
  by (induction es arbitrary: st) simp_all

lemma sweep_keeps_tombstone:
  "tombstoned st rid \<Longrightarrow> tombstoned (foldl cleanUpEntry st es) rid"
  by (induction es arbitrary: st) (simp_all add: cleanUpEntry_keeps_tombstone)

lemma sweep_evicts:
  "(rid, Some expires) \<in> set es \<Longrightarrow> expires < clock st \<Longrightarrow> tombstoned (foldl cleanUpEntry st es) rid"
proof (induction es arbitrary: st)
  case Nil
  then show ?case by simp
next
  case (Cons entry es)
  show ?case
  proof (cases "entry = (rid, Some expires)")
    case True
    then have "tombstoned (cleanUpEntry st entry) rid"
      using Cons.prems(2) by (simp add: cleanUpEntry_def evict_tombstoned)
    then show ?thesis by (simp add: sweep_keeps_tombstone)
  next
    case False
    then have "(rid, Some expires) \<in> set es" using Cons.prems(1) by auto
    then show ?thesis using Cons.IH[of "cleanUpEntry st entry"] Cons.prems(2) by simp
  qed
qed

lemma cleanUpEntry_untouched:
  assumes "\<forall>e. entry = (rid, Some e) \<longrightarrow> \<not> e < clock st"
  shows "map_of (recordRaw (cleanUpEntry st entry)) rid = map_of (recordRaw st) rid
       \<and> map_of (recordWithComputeds (cleanUpEntry st entry)) rid = map_of (recordWithComputeds st) rid
       \<and> map_of (cacheMeta (cleanUpEntry st entry)) rid = map_of (cacheMeta st) rid"
proof (cases entry)
  case (Pair r m)
  show ?thesis
  proof (cases "r = rid")
    case True
    then show ?thesis using assms Pair by (auto simp: cleanUpEntry_def split: option.splits)
  next
    case False
    then show ?thesis using Pair by (auto simp: cleanUpEntry_def evict_other split: option.splits)
  qed
qed

lemma sweep_untouched:
  assumes "\<forall>e. (rid, Some e) \<in> set es \<longrightarrow> \<not> e < clock st"
  shows "map_of (recordRaw (foldl cleanUpEntry st es)) rid = map_of (recordRaw st) rid
       \<and> map_of (recordWithComputeds (foldl cleanUpEntry st es)) rid = map_of (recordWithComputeds st) rid
       \<and> map_of (cacheMeta (foldl cleanUpEntry st es)) rid = map_of (cacheMeta st) rid"
  using assms
proof (induction es arbitrary: st)
  case Nil
  then show ?case by simp
next
  case (Cons entry es)
  have 1: "\<forall>e. entry = (rid, Some e) \<longrightarrow> \<not> e < clock st" using Cons.prems by auto
  have 2: "\<forall>e. (rid, Some e) \<in> set es \<longrightarrow> \<not> e < clock (cleanUpEntry st entry)"
    using Cons.prems by auto
  show ?case
    using Cons.IH[OF 2] cleanUpEntry_untouched[OF 1] by simp
qed

lemma evict_distinct:
  "distinct (map fst (recordRaw st)) \<Longrightarrow> distinct (map fst (recordRaw (evict rid st)))"
  by (simp add: evict_def Let_def distinct_update distinct_delete)

lemma sweep_distinct:
  "distinct (map fst (recordRaw st)) \<Longrightarrow> distinct (map fst (recordRaw (foldl cleanUpEntry st es)))"
proof (induction es arbitrary: st)
  case Nil
  then show ?case by simp
next
  case (Cons entry es)
  have "distinct (map fst (recordRaw (cleanUpEntry st entry)))"
    using Cons.prems by (auto simp: cleanUpEntry_def evict_distinct split: prod.splits option.splits)
  then show ?case using Cons.IH by simp
qed

lemma reconcile_fold_distinct:
  "distinct (map fst (recordRaw st)) \<Longrightarrow> distinct (map fst (recordRaw (foldl reconcileEntry st es)))"
proof (induction es arbitrary: st)
  case Nil
  then show ?case by simp
next
  case (Cons entry es)
  have "distinct (map fst (recordRaw (reconcileEntry st entry)))"
    using Cons.prems by (auto simp: reconcileEntry_def Let_def distinct_update split: prod.splits)
  then show ?case using Cons.IH by simp
qed

lemma reconcile_fold_frame [simp]:
  "recordWithComputeds (foldl reconcileEntry st es) = recordWithComputeds st"
  "cacheMeta (foldl reconcileEntry st es) = cacheMeta st"
  "clock (foldl reconcileEntry st es) = clock st"
  "watches (foldl reconcileEntry st es) = watches st"
  by (induction es arbitrary: st; simp add: reconcileEntry_def Let_def split: prod.splits)+

lemma setAndWatchGetters_other:
  assumes "r \<noteq> rid"
  shows "map_of (recordRaw (setAndWatchGetters cfg rid item st)) r = map_of (recordRaw st) r"
    and "map_of (recordWithComputeds (setAndWatchGetters cfg rid item st)) r = map_of (recordWithComputeds st) r"
    and "map_of (cacheMeta (setAndWatchGetters cfg rid item st)) r = map_of (cacheMeta st) r"
  using assms
  by (simp_all add: setAndWatchGetters_def Let_def case_prod_beta setRecordItem_raw update_conv'
      setRecordItem_comp_other setRecordItem_cacheMeta_other watchComputedGetters_other initComputeds_other)

lemma setAndWatchGetters_None_tombstoned:
  "tombstoned st rid \<Longrightarrow> tombstoned (setAndWatchGetters cfg rid None st) rid"
  by (simp add: setAndWatchGetters_def Let_def setRecordItem_None tombstoned_def update_conv')

lemma initLoop_keeps_tombstone:
  assumes "tombstoned st rid" and "\<forall>item. (rid, item) \<in> set es \<longrightarrow> item = None"
  shows "tombstoned (foldl (\<lambda>s (r, item). setAndWatchGetters cfg r item s) st es) rid"
  using assms
proof (induction es arbitrary: st)
  case Nil
  then show ?case by simp
next
  case (Cons entry es)
  obtain r item where entry: "entry = (r, item)" by (cases entry)
  have "tombstoned (setAndWatchGetters cfg r item st) rid"
  proof (cases "r = rid")
    case True
    then have "item = None" using Cons.prems(2) entry by auto
    then show ?thesis using True Cons.prems(1) by (simp add: setAndWatchGetters_None_tombstoned)
  next
    case False
    then show ?thesis using Cons.prems(1)
      by (simp add: tombstoned_def setAndWatchGetters_other[of rid r])
  qed
  then show ?case using Cons.IH Cons.prems(2) entry by simp
qed

lemma getRaw_tombstoned:
  "tombstoned st rid \<Longrightarrow> manager_getRaw cfg rid st = (JNull, st)"
  by (simp add: manager_getRaw_def tombstoned_def storeGet_def entryVal_def isNullish_def Let_def
      setRecordItem_None update_triv)


section \<open>The table of watches along a history\<close>

text \<open>
  A property \<open>Q\<close> of the table that survives the entry of a pair that is not yet in
  the table survives every operation.
\<close>

lemma watchGetter_table:
  assumes grow: "\<And>ws r k. Q ws \<Longrightarrow> (r, k) \<notin> set ws \<Longrightarrow> Q (ws @ [(r, k)])"
  shows "Q (watches st) \<Longrightarrow> Q (watches (snd (watchGetter cfg rid k st)))"
  by (simp add: watchGetter_watches grow existingWatcher_def)

lemma setRecordItem_table:
  assumes grow: "\<And>ws r k. Q ws \<Longrightarrow> (r, k) \<notin> set ws \<Longrightarrow> Q (ws @ [(r, k)])"
    and "Q (watches st)"
  shows "Q (watches (setRecordItem cfg rid value st))"
  by (rule setRecordItem_preserves[where P="\<lambda>s. Q (watches s)"])
     (simp_all add: assms watchGetter_table[where Q=Q])

lemma setAndWatchGetters_table:
  assumes grow: "\<And>ws r k. Q ws \<Longrightarrow> (r, k) \<notin> set ws \<Longrightarrow> Q (ws @ [(r, k)])"
    and "Q (watches st)"
  shows "Q (watches (setAndWatchGetters cfg rid item st))"
proof -
  have wg: "\<And>k s. Q (watches s) \<Longrightarrow> Q (watches (snd (watchGetter cfg rid k s)))"
    by (rule watchGetter_table[where Q=Q]) (simp_all add: grow)
  have ic: "Q (watches (snd (initComputeds cfg rid item st)))"
    by (rule initComputeds_preserves[where P="\<lambda>s. Q (watches s)"]) (simp_all add: wg assms)
  have sr: "\<And>v s. Q (watches s) \<Longrightarrow> Q (watches (setRecordItem cfg rid v s))"
    by (rule setRecordItem_table[where Q=Q]) (simp_all add: grow)
  have wc: "\<And>s. Q (watches s) \<Longrightarrow> Q (watches (watchComputedGetters cfg rid s))"
    by (rule watchComputedGetters_preserves[where P="\<lambda>s. Q (watches s)"]) (simp_all add: wg)
  show ?thesis
    using assms(2) ic sr wc by (simp add: setAndWatchGetters_def Let_def case_prod_beta)
qed

lemma manager_set_table:
  assumes grow: "\<And>ws r k. Q ws \<Longrightarrow> (r, k) \<notin> set ws \<Longrightarrow> Q (ws @ [(r, k)])"
    and "Q (watches st)"
  shows "Q (watches (manager_set cfg item st))"
proof -
  have "\<And>r i. Q (watches (setAndWatchGetters cfg r i st))"
    by (rule setAndWatchGetters_table[where Q=Q]) (simp_all add: assms)
  then show ?thesis
    using assms(2) by (simp add: manager_set_def Let_def split: option.splits)
qed

lemma manager_update_table:
  assumes grow: "\<And>ws r k. Q ws \<Longrightarrow> (r, k) \<notin> set ws \<Longrightarrow> Q (ws @ [(r, k)])"
  shows "Q (watches st) \<Longrightarrow> Q (watches (manager_update cfg items st))"
  unfolding manager_update_def
proof (induction "map snd items" arbitrary: st items)
  case Nil
  then show ?case by simp
next
  case (Cons item rest)
  then obtain e es where items: "items = e # es" and "item = snd e" and "rest = map snd es"
    by auto
  have "Q (watches (manager_set cfg (snd e) st))"
    by (rule manager_set_table[where Q=Q]) (simp_all add: grow Cons.prems)
  then show ?case using Cons.hyps(1)[of es "manager_set cfg (snd e) st"] items \<open>rest = map snd es\<close> by simp
qed

lemma manager_unset_watches [simp]: "watches (manager_unset rid st) = watches st"
  by (simp add: manager_unset_def Let_def)

lemma unset_fold_watches [simp]: "watches (foldl (\<lambda>s rid. manager_unset rid s) st ids) = watches st"
  by (induction ids arbitrary: st) simp_all

lemma manager_reset_watches [simp]: "watches (manager_reset st) = watches st"
  by (simp add: manager_reset_def)

lemma resetComputed_fold_table:
  assumes grow: "\<And>ws r k. Q ws \<Longrightarrow> (r, k) \<notin> set ws \<Longrightarrow> Q (ws @ [(r, k)])"
  shows "Q (watches st) \<Longrightarrow> Q (watches (foldl (\<lambda>s rid. watchComputedGetters cfg rid s) st ids))"
proof (induction ids arbitrary: st)
  case Nil
  then show ?case by simp
next
  case (Cons rid ids)
  have "Q (watches (watchComputedGetters cfg rid st))"
    by (rule watchComputedGetters_preserves[where P="\<lambda>s. Q (watches s)"])
       (simp_all add: Cons.prems watchGetter_table[where Q=Q] grow)
  then show ?case using Cons.IH by simp
qed

lemma fireWatch_watches [simp]: "watches (fireWatch cfg rid k st) = watches st"
  by (simp add: fireWatch_def case_prod_beta)

lemma getter_watches:
  assumes "cacheMappedComputedGetters cfg name target args st = Some (v, st')"
  shows "watches st' = watches st \<or> (\<exists>r. watches st' = watches (snd (watchGetter cfg r name st)))"
proof -
  have "st' = snd (the (cacheMappedComputedGetters cfg name target args st))"
    using assms by simp
  moreover have "map_of (computedGetters cfg) name \<noteq> None"
    using assms by (auto simp: cacheMappedComputedGetters_def split: option.splits)
  ultimately show ?thesis
    by (auto simp: cacheMappedComputedGetters_def Let_def case_prod_beta split: if_splits)
qed

lemma getter_table:
  assumes grow: "\<And>ws r k. Q ws \<Longrightarrow> (r, k) \<notin> set ws \<Longrightarrow> Q (ws @ [(r, k)])"
    and "Q (watches st)" and "cacheMappedComputedGetters cfg name target args st = Some (v, st')"
  shows "Q (watches st')"
proof -
  have wg: "\<And>r. Q (watches (snd (watchGetter cfg r name st)))"
    by (rule watchGetter_table[where Q=Q]) (simp_all add: grow assms(2))
  show ?thesis
    using assms(2) wg getter_watches[OF assms(3)] by auto
qed

lemma apply_op_table:
  assumes grow: "\<And>ws r k. Q ws \<Longrightarrow> (r, k) \<notin> set ws \<Longrightarrow> Q (ws @ [(r, k)])"
    and "Q (watches st)"
  shows "Q (watches (apply_op cfg op st))"
proof -
  have set: "\<And>item s. Q (watches s) \<Longrightarrow> Q (watches (manager_set cfg item s))"
    by (rule manager_set_table[where Q=Q]) (simp_all add: grow)
  have upd: "\<And>items s. Q (watches s) \<Longrightarrow> Q (watches (manager_update cfg items s))"
    by (rule manager_update_table[where Q=Q]) (simp_all add: grow)
  have sri: "\<And>r v s. Q (watches s) \<Longrightarrow> Q (watches (setRecordItem cfg r v s))"
    by (rule setRecordItem_table[where Q=Q]) (simp_all add: grow)
  have rc: "\<And>ids s. Q (watches s) \<Longrightarrow> Q (watches (foldl (\<lambda>s rid. watchComputedGetters cfg rid s) s ids))"
    by (rule resetComputed_fold_table[where Q=Q]) (simp_all add: grow)
  have gt: "\<And>name target args v s s'. Q (watches s) \<Longrightarrow>
      cacheMappedComputedGetters cfg name target args s = Some (v, s') \<Longrightarrow> Q (watches s')"
    by (rule getter_table[where Q=Q]) (simp_all add: grow)
  show ?thesis
  proof (cases op)
    case (OpSet item)
    then show ?thesis using assms(2) set by auto
  next
    case (OpSetChildOf rid key v)
    then show ?thesis using assms(2) set
      by (auto simp: manager_setChildOf_def Let_def split: option.splits if_splits)
  next
    case (OpUpdate items)
    then show ?thesis using assms(2) upd by auto
  next
    case (OpOverwrite items)
    then show ?thesis using assms(2) upd[of "manager_reset st"]
      by (auto simp: manager_overwrite_def)
  next
    case (OpGet rid)
    then show ?thesis using assms(2) sri
      by (auto simp: manager_get_def Let_def)
  next
    case (OpGetRaw rid)
    then show ?thesis using assms(2) sri
      by (auto simp: manager_getRaw_def Let_def)
  next
    case (OpGetter name target args)
    then show ?thesis using assms(2) gt by (auto split: option.splits)
  next
    case OpResetComputed
    then show ?thesis using assms(2) rc
      by (auto simp: manager_resetComputed_def)
  qed (use assms(2) in auto)
qed

lemma run_table:
  assumes grow: "\<And>ws r k. Q ws \<Longrightarrow> (r, k) \<notin> set ws \<Longrightarrow> Q (ws @ [(r, k)])"
  shows "Q (watches st) \<Longrightarrow> Q (watches (run cfg ops st))"
proof (induction ops arbitrary: st)
  case Nil
  then show ?case by simp
next
  case (Cons op ops)
  have "Q (watches (apply_op cfg op st))"
    by (rule apply_op_table[where Q=Q]) (simp_all add: grow Cons.prems)
  then show ?case using Cons.IH by simp
qed

lemma initLoop_table:
  assumes grow: "\<And>ws r k. Q ws \<Longrightarrow> (r, k) \<notin> set ws \<Longrightarrow> Q (ws @ [(r, k)])"
  shows "Q (watches st) \<Longrightarrow> Q (watches (foldl (\<lambda>s (r, item). setAndWatchGetters cfg r item s) st es))"
proof (induction es arbitrary: st)
  case Nil
  then show ?case by simp
next
  case (Cons e es)
  have "Q (watches (setAndWatchGetters cfg (fst e) (snd e) st))"
    by (rule setAndWatchGetters_table[where Q=Q]) (simp_all add: grow Cons.prems)
  then show ?case using Cons.IH by (simp add: case_prod_beta)
qed

lemma sweep_watches [simp]: "watches (foldl cleanUpEntry st es) = watches st"
  by (induction es arbitrary: st)
     (simp_all add: cleanUpEntry_def evict_def Let_def split: prod.splits option.splits)

lemma construct_watches_distinct:
  "distinct (watches (construct cfg initial persistedRecords persistedMeta now))"
proof -
  have "distinct (watches (foldl (\<lambda>s (r, item). setAndWatchGetters cfg r item s) st es))"
    if "watches st = []" for st es
    by (rule initLoop_table[where Q=distinct]) (simp_all add: that)
  then show ?thesis
    by (simp add: construct_def Let_def reconcile_def cleanUpCache_def split: option.splits)
qed

lemma run_append: "run cfg (xs @ ys) st = run cfg ys (run cfg xs st)"
  by (induction xs arbitrary: st) simp_all

lemma initComputedField_watched:
  "item \<noteq> None \<Longrightarrow> \<not> inheritedName k \<Longrightarrow>
   (rid, k) \<in> set (watches (snd (initComputedField cfg rid item k st)))"
  by (simp add: initComputedField_def watchGetter_watches existingWatcher_def truthy_inherited)

lemma initEntries_watches_all:
  assumes "item \<noteq> None" and "\<not> inheritedName k"
  shows "k \<in> set ks \<Longrightarrow> (rid, k) \<in> set (watches (snd (initEntries cfg rid item ks st)))"
proof (induction ks arbitrary: st)
  case Nil
  then show ?case by simp
next
  case (Cons k' ks)
  show ?case
  proof (cases "k = k'")
    case True
    have "(rid, k) \<in> set (watches (snd (initComputedField cfg rid item k st)))"
      using assms by (rule initComputedField_watched)
    then have "(rid, k) \<in> set (watches (snd (initEntries cfg rid item ks
        (snd (initComputedField cfg rid item k st)))))"
      by (intro initEntries_preserves[where P="\<lambda>s. (rid, k) \<in> set (watches s)"])
         (simp_all add: watchGetter_watches)
    then show ?thesis using True by (simp only: initEntries_snd_Cons)
  next
    case False
    then have "k \<in> set ks" using Cons.prems by simp
    then show ?thesis using Cons.IH by (simp only: initEntries_snd_Cons)
  qed
qed

lemma setRecordItem_watches_all:
  assumes "rawOf value \<noteq> None" and "k \<in> fst ` set (computedGetters cfg)" and "\<not> inheritedName k"
  shows "(rid, k) \<in> set (watches (setRecordItem cfg rid value st))"
proof -
  have "k \<in> set (map fst (computedGetters cfg))" using assms(2) by simp
  then have "\<And>r s. (rid, k) \<in> set (watches (snd (initComputeds cfg rid (Some r) s)))"
    unfolding initComputeds_snd using assms(3) by (intro initEntries_watches_all) simp_all
  then show ?thesis
    using assms(1)
    by (auto simp: setRecordItem_def rawOf_def Let_def case_prod_beta split: option.splits)
qed

lemma setAndWatchGetters_watches_all:
  assumes "rawOf (Some i) \<noteq> None" and "k \<in> fst ` set (computedGetters cfg)" and "\<not> inheritedName k"
  shows "(rid, k) \<in> set (watches (setAndWatchGetters cfg rid (Some i) st))"
proof -
  have mem: "k \<in> set (map fst (computedGetters cfg))" using assms(2) by simp
  let ?st1 = "snd (initComputeds cfg rid (Some i) st)"
  have 1: "(rid, k) \<in> set (watches ?st1)"
    unfolding initComputeds_snd using mem assms(3) by (intro initEntries_watches_all) simp_all
  have keep_set: "\<And>v s. (rid, k) \<in> set (watches s) \<Longrightarrow> (rid, k) \<in> set (watches (setRecordItem cfg rid v s))"
    by (rule setRecordItem_table[where Q="\<lambda>ws. (rid, k) \<in> set ws"]) simp_all
  have keep_watch: "\<And>s. (rid, k) \<in> set (watches s) \<Longrightarrow> (rid, k) \<in> set (watches (watchComputedGetters cfg rid s))"
    by (rule watchComputedGetters_preserves[where P="\<lambda>s. (rid, k) \<in> set (watches s)"])
       (simp_all add: watchGetter_watches)
  show ?thesis
    using assms 1 keep_set keep_watch setRecordItem_watches_all[OF assms]
    by (simp add: setAndWatchGetters_def Let_def case_prod_beta)
qed

lemma manager_set_watches_all:
  assumes "map_of item ''id'' = Some (JStr rid)" and "k \<in> fst ` set (computedGetters cfg)"
    and "\<not> inheritedName k"
  shows "(rid, k) \<in> set (watches (manager_set cfg item st))"
proof (cases "isItemWithComputed item")
  case True
  let ?i = "AList.delete ''computed'' item"
  have idk: "map_of ?i ''id'' = Some (JStr rid)" using assms(1) by (simp add: delete_conv')
  have ne: "?i \<noteq> []"
  proof
    assume e: "?i = []"
    show False using idk unfolding e by simp
  qed
  have raw: "rawOf (Some ?i) = Some ?i"
    by (rule rawOf_plain) (rule delete_notin_dom)
  have strip: "itemWithComputedToRaw (Some item) = Some ?i"
    using ne by (simp add: itemWithComputedToRaw_def)
  have key: "toPropertyKey (getProp (JObj ?i) ''id'') = rid"
    using idk by simp
  have "manager_set cfg item st = setAndWatchGetters cfg rid (Some ?i) st"
    unfolding manager_set_def Let_def by (simp only: True strip if_True option.case key)
  then show ?thesis
    using setAndWatchGetters_watches_all[of ?i k cfg rid st] raw assms(2,3) by simp
next
  case False
  then have raw: "rawOf (Some item) = Some item" by (simp add: rawOf_def)
  have "manager_set cfg item st = setAndWatchGetters cfg rid (Some item) st"
    using False assms(1) by (simp add: manager_set_def Let_def)
  then show ?thesis
    using setAndWatchGetters_watches_all[of item k cfg rid st] raw assms(2,3) by simp
qed

lemma distinct_count_one: "distinct xs \<Longrightarrow> x \<in> set xs \<Longrightarrow> count_list xs x = 1"
  by (induction xs) auto


section \<open>Consistency of the two stores\<close>

text \<open>
  The two stores are consistent at an id when the computed store's entry, stripped of
  \<open>computed\<close> by the manager's own \<open>itemWithComputedToRaw\<close> (a null or absent
  entry, and an entry with no other field, strip to null), is the raw store's entry
  (null when absent). A record is well formed when it has a field, as every record
  with an id has, and no \<open>computed\<close> field that holds null or undefined.
\<close>

definition consistentAt :: "state \<Rightarrow> string \<Rightarrow> bool" where
  "consistentAt st rid =
     (itemWithComputedToRaw (entryOf (recordWithComputeds st) rid) = entryOf (recordRaw st) rid)"








lemma invoke_consistentAt [simp]:
  "consistentAt (snd (invoke cfg k t a st)) r = consistentAt st r"
  by (simp add: consistentAt_def)



















































section \<open>Claims about the equality utility\<close>

text \<open>
  C6. \<open>isEqual\<close> is claimed to return true whenever both arguments are nullish, in
  particular for the pairs (null, undefined) and (undefined, null). The source tests
  \<open>typeof a !== typeof b\<close> first, and \<open>typeof null\<close> is \<open>object\<close> while
  \<open>typeof undefined\<close> is \<open>undefined\<close>, so the mixed pairs return false before the
  nullish test of the next line is reached. Two nulls and two undefineds are equal.
\<close>

theorem isEqual_null_undefined:
  "isEqual JNull JUndefined = False \<and> isEqual JUndefined JNull = False
   \<and> isEqual JNull JNull = True \<and> isEqual JUndefined JUndefined = True"
  by (simp add: isEqual_def isNullish_def)

section \<open>Claims about reads of an absent record\<close>

text \<open>
  C7. For every id with no entry in the stores, \<open>get(id)\<close> is claimed to return
  null and to create a null tombstone, as the comment of \<open>get\<close> says (the record,
  or null if it does not exist). The stores are plain objects. The newly built example
  manager holds no entry under \<open>toString\<close>, and its computed store reads under
  that name as the function that every object inherits: \<open>get\<close> returns the
  function, which is not nullish, and writes no tombstone.
\<close>

theorem get_inherited_member:
  "''toString'' \<notin> fst ` set (recordRaw exEmpty)
   \<and> ''toString'' \<notin> fst ` set (recordWithComputeds exEmpty)
   \<and> fst (manager_get exConfig ''toString'' exEmpty) = JFunction ''toString''
   \<and> snd (manager_get exConfig ''toString'' exEmpty) = exEmpty"
  by (simp add: exEmpty_eq manager_get_def storeGet_def inherited_def objectPrototypeNames_def
      isNullish_def)

text \<open>
  For the other ids the code does what is claimed: when an id has no entry in either
  store and is not the name of a member of \<open>Object.prototype\<close>, \<open>get(id)\<close>
  returns null and leaves a null tombstone; a second \<open>get(id)\<close> returns null again
  and changes nothing, and each store holds exactly one row for the id, the tombstone.
\<close>

lemma get_missing_tombstone:
  assumes "rid \<notin> fst ` set (recordRaw st)" and "rid \<notin> fst ` set (recordWithComputeds st)"
    and "\<not> inheritedName rid"
  shows "fst (manager_get cfg rid st) = JNull
       \<and> fst (manager_get cfg rid (snd (manager_get cfg rid st))) = JNull
       \<and> rowsOf (recordRaw (snd (manager_get cfg rid st))) rid = [None]
       \<and> rowsOf (recordRaw (snd (manager_get cfg rid (snd (manager_get cfg rid st))))) rid = [None]
       \<and> rowsOf (recordWithComputeds (snd (manager_get cfg rid (snd (manager_get cfg rid st))))) rid = [None]
       \<and> snd (manager_get cfg rid (snd (manager_get cfg rid st))) = snd (manager_get cfg rid st)"
proof -
  have "map_of (recordWithComputeds st) rid = None"
    using assms(2) by (simp add: map_of_eq_None_iff)
  then have absent: "storeGet (recordWithComputeds st) rid = JUndefined"
    using assms(3) by (simp add: storeGet_def inherited_undefined)
  define st1 where "st1 = setRecordItem cfg rid None st"
  have raw1: "recordRaw st1 = AList.update rid None (recordRaw st)"
    and comp1: "recordWithComputeds st1 = AList.update rid None (recordWithComputeds st)"
    by (simp_all add: st1_def setRecordItem_def Let_def)
  have read1: "storeGet (recordWithComputeds st1) rid = JNull"
    by (simp add: comp1 storeGet_def update_conv' entryVal_def)
  have first: "manager_get cfg rid st = (JNull, st1)"
    using read1 by (simp add: manager_get_def absent isNullish_def st1_def Let_def)
  have idem: "setRecordItem cfg rid None st1 = st1"
    by (simp add: setRecordItem_def Let_def raw1 comp1 st1_def)
  have second: "manager_get cfg rid st1 = (JNull, st1)"
    by (simp add: manager_get_def read1 isNullish_def Let_def idem)
  show ?thesis
    using assms by (simp add: first second raw1 comp1 rowsOf_update_absent)
qed

lemma get_missing_tombstone_example:
  "fst (manager_get exConfig ''a'' exEmpty) = JNull
   \<and> fst (manager_get exConfig ''a'' (snd (manager_get exConfig ''a'' exEmpty))) = JNull
   \<and> rowsOf (recordRaw (snd (manager_get exConfig ''a'' (snd (manager_get exConfig ''a'' exEmpty)))))
        ''a'' = [None]"
  using get_missing_tombstone [of "''a''" exEmpty exConfig]
  by (simp add: exEmpty_eq inheritedName_def objectPrototypeNames_def)

text \<open>
  C10. For every id that is absent from the raw store, \<open>getRawClone(id)\<close> is claimed
  to return null, as its comment says (the raw clone of the record, or null if it does
  not exist), and to write nothing, unlike \<open>get\<close> and \<open>getRaw\<close>, which create
  a null tombstone. The raw store of the newly built example manager holds no entry
  under \<open>toString\<close> and reads under that name as the function that every object
  inherits. \<open>structuredClone\<close> does not copy a function: \<open>getRawClone\<close> throws
  a \<open>DataCloneError\<close> and returns nothing. It writes nothing, as claimed; but
  neither do \<open>getRaw\<close> and \<open>get\<close> here, for which the function is not nullish:
  they return it and create no tombstone.
\<close>

theorem getRawClone_inherited_member:
  "''toString'' \<notin> fst ` set (recordRaw exEmpty)
   \<and> manager_getRawClone ''toString'' exEmpty = (Inl DataCloneError, exEmpty)
   \<and> manager_getRaw exConfig ''toString'' exEmpty = (JFunction ''toString'', exEmpty)
   \<and> manager_get exConfig ''toString'' exEmpty = (JFunction ''toString'', exEmpty)"
  by (simp add: exEmpty_eq manager_getRawClone_def manager_getRaw_def manager_get_def storeGet_def
      inherited_def objectPrototypeNames_def isNullish_def)

text \<open>
  For the other ids the code does what is claimed: for an id that is absent from the
  raw store and is not the name of a member of \<open>Object.prototype\<close>,
  \<open>getRawClone(id)\<close> returns null and returns the state as it was, where
  \<open>getRaw(id)\<close> writes a null tombstone, and so does \<open>get(id)\<close> when the id is
  absent from the computed store too.
\<close>

lemma getRawClone_no_write:
  assumes "rid \<notin> fst ` set (recordRaw st)" and "\<not> inheritedName rid"
  shows "manager_getRawClone rid st = (Inr JNull, st)
       \<and> map_of (recordRaw (snd (manager_getRaw cfg rid st))) rid = Some None
       \<and> snd (manager_getRaw cfg rid st) \<noteq> st
       \<and> (rid \<notin> fst ` set (recordWithComputeds st) \<longrightarrow>
            map_of (recordRaw (snd (manager_get cfg rid st))) rid = Some None
            \<and> snd (manager_get cfg rid st) \<noteq> st)"
proof -
  have none: "map_of (recordRaw st) rid = None"
    using assms(1) by (simp add: map_of_eq_None_iff)
  have absent: "storeGet (recordRaw st) rid = JUndefined"
    using assms(2) none by (simp add: storeGet_def inherited_undefined)
  have clone: "manager_getRawClone rid st = (Inr JNull, st)"
    by (simp add: manager_getRawClone_def absent coalesce_def isNullish_def)
  have raw: "snd (manager_getRaw cfg rid st) = setRecordItem cfg rid None st"
    by (simp add: manager_getRaw_def absent isNullish_def Let_def)
  have tomb: "map_of (recordRaw (setRecordItem cfg rid None st)) rid = Some None"
    by (simp add: setRecordItem_def Let_def update_conv')
  have changed: "setRecordItem cfg rid None st \<noteq> st"
    using tomb none by auto
  have get: "snd (manager_get cfg rid st) = setRecordItem cfg rid None st"
    if "rid \<notin> fst ` set (recordWithComputeds st)"
    using that assms(2)
    by (simp add: manager_get_def storeGet_def map_of_eq_None_iff[THEN iffD2] inherited_undefined
        isNullish_def Let_def)
  show ?thesis
    using clone raw tomb changed get by simp
qed

lemma getRawClone_no_write_example:
  "manager_getRawClone ''a'' exEmpty = (Inr JNull, exEmpty)
   \<and> map_of (recordRaw (snd (manager_getRaw exConfig ''a'' exEmpty))) ''a'' = Some None
   \<and> snd (manager_getRaw exConfig ''a'' exEmpty) \<noteq> exEmpty
   \<and> snd (manager_get exConfig ''a'' exEmpty) \<noteq> exEmpty"
  using getRawClone_no_write [of "''a''" exEmpty exConfig]
  by (simp add: exEmpty_eq inheritedName_def objectPrototypeNames_def)

section \<open>Claims about removal\<close>

text \<open>
  C3, as claimed: \<open>unset(id)\<close> removes the record from the three stores and tears
  down every subscription of the record. The second half fails: nothing in the
  manager ever removes a watch. After \<open>set({id: "a", x: 2})\<close> and \<open>unset("a")\<close> in
  the example manager, the watch of field \<open>double\<close> for \<open>a\<close> is still registered.
\<close>

theorem unset_keeps_subscription_counterexample:
  "(''a'', ''double'') \<in> set (watches (manager_unset ''a'' (manager_set exConfig (exItem 2) exEmpty)))"
  by code_simp

text \<open>
  C3, amended: \<open>unset(id)\<close> leaves the key absent from the raw store, the computed
  store and the cache metadata (absent, not present with null), and leaves the table
  of watches as it was.
\<close>

theorem unset_removes_keys_keeps_watches:
  "rid \<notin> fst ` set (recordRaw (manager_unset rid st))
   \<and> rid \<notin> fst ` set (recordWithComputeds (manager_unset rid st))
   \<and> rid \<notin> fst ` set (cacheMeta (manager_unset rid st))
   \<and> map_of (recordRaw (manager_unset rid st)) rid = None
   \<and> map_of (recordWithComputeds (manager_unset rid st)) rid = None
   \<and> map_of (cacheMeta (manager_unset rid st)) rid = None
   \<and> watches (manager_unset rid st) = watches st"
  by (simp add: manager_unset_def Let_def delete_notin_dom delete_conv')

section \<open>Claims about nested child assignment\<close>

text \<open>The record \<open>{id: "a", items: [{name: "y"}]}\<close>.\<close>

definition exItems :: fields where
  "exItems = [(''id'', JStr ''a''), (''items'', JArr [JObj [(''name'', JStr ''y'')]])]"

lemma splitPath_example: "splitPath ''items/0/name'' = [''items'', ''0'', ''name'']"
  by code_simp

lemma parseInt_zero: "parseInt ''0'' = Some 0"
  by code_simp

lemma exItems_state:
  "map_of (recordWithComputeds (manager_set exConfig exItems exEmpty)) ''a'' =
     Some (Some (exItems @ [(''computed'', JObj [(''double'', JNum 0)])]))"
  by code_simp

text \<open>
  C8. Let the computed store hold, under \<open>rid\<close>, a record whose fields apart from
  \<open>computed\<close> are \<open>r\<close>, with \<open>r.id = rid\<close> and \<open>r.items\<close> an array whose first
  element is an object \<open>e\<close>. Then \<open>setChildOf(rid, "items/0/name", v)\<close> is
  \<open>set\<close> of \<open>r\<close> with \<open>items[0].name\<close> replaced by \<open>v\<close> and nothing else changed,
  and \<open>getRaw(rid)\<close> then returns exactly that record. The witness is the claim's
  own example, \<open>{id: "a", items: [{name: "y"}]}\<close> and \<open>v = "x"\<close>.
\<close>

theorem setChildOf_nested_array:
  assumes "map_of (recordWithComputeds st) rid = Some (Some entry)"
    and "itemWithComputedToRaw (Some entry) = Some r"
    and "map_of r ''id'' = Some (JStr rid)"
    and "map_of r ''items'' = Some (JArr (JObj e # others))"
  shows "manager_setChildOf cfg rid ''items/0/name'' v st =
           manager_set cfg
             (AList.update ''items'' (JArr (JObj (AList.update ''name'' v e) # others)) r) st
       \<and> fst (manager_getRaw cfg rid (manager_setChildOf cfg rid ''items/0/name'' v st)) =
           JObj (AList.update ''items'' (JArr (JObj (AList.update ''name'' v e) # others)) r)"
proof -
  let ?r' = "AList.update ''items'' (JArr (JObj (AList.update ''name'' v e) # others)) r"
  have nested: "setNestedChildOnRecord (JObj r) ''items/0/name'' v = ?r'"
    using assms(4)
    by (simp add: setNestedChildOnRecord_def splitPath_example parseInt_zero arrayGet_def
        arraySet_def orEmptyObject_def)
  have read: "storeGet (recordWithComputeds st) rid = JObj entry"
    using assms(1) by (simp add: storeGet_def entryVal_def)
  have step: "manager_setChildOf cfg rid ''items/0/name'' v st = manager_set cfg ?r' st"
    using assms(2) nested by (simp add: manager_setChildOf_def Let_def read spreadItem_def isNullish_def)
  have nocomp: "''computed'' \<notin> fst ` set ?r'"
    using itemWithComputedToRaw_SomeD(3)[OF assms(2)] by (simp add: dom_update)
  have rid: "map_of ?r' ''id'' = Some (JStr rid)"
    using assms(3) by (simp add: update_conv')
  have "fst (manager_getRaw cfg rid (manager_set cfg ?r' st)) = JObj ?r'"
    using manager_set_raw_at[OF nocomp rid] by (simp add: getRaw_present)
  with step show ?thesis by simp
qed

theorem setChildOf_nested_array_witness:
  "fst (manager_getRaw exConfig ''a''
          (manager_setChildOf exConfig ''a'' ''items/0/name'' (JStr ''x'')
             (manager_set exConfig exItems exEmpty))) =
     JObj [(''id'', JStr ''a''), (''items'', JArr [JObj [(''name'', JStr ''x'')]])]"
proof -
  have stored: "itemWithComputedToRaw (Some (exItems @ [(''computed'', JObj [(''double'', JNum 0)])]))
      = Some exItems"
    by (simp add: exItems_def itemWithComputedToRaw_def)
  have rid: "map_of exItems ''id'' = Some (JStr ''a'')"
    and items: "map_of exItems ''items'' = Some (JArr (JObj [(''name'', JStr ''y'')] # []))"
    by (simp_all add: exItems_def)
  have result: "AList.update ''items'' (JArr (JObj (AList.update ''name'' (JStr ''x'') [(''name'', JStr ''y'')]) # [])) exItems
      = [(''id'', JStr ''a''), (''items'', JArr [JObj [(''name'', JStr ''x'')]])]"
    by (simp add: exItems_def)
  show ?thesis
    using setChildOf_nested_array [OF exItems_state stored rid items, of exConfig "JStr ''x''"]
    unfolding result by (rule conjunct2)
qed


section \<open>Claims about the eviction sweep\<close>

text \<open>
  A persisting variant of the example manager, and what a previous session left in
  local storage: two records, \<open>a\<close> expiring at 4000 and \<open>b\<close> at 9000.
\<close>

definition exPersist :: config where
  "exPersist = \<lparr>persist = True, ttl = None, computedGetters = [(''double'', exDouble)]\<rparr>"

definition exStored :: "fields option byId" where
  "exStored = [(''a'', Some [(''id'', JStr ''a''), (''x'', JNum 1), (''computed'', JObj [(''double'', JNum 2)])]),
               (''b'', Some [(''id'', JStr ''b''), (''x'', JNum 3), (''computed'', JObj [(''double'', JNum 6)])])]"

definition exStoredMeta :: "int option byId" where
  "exStoredMeta = [(''a'', Some 4000), (''b'', Some 9000)]"

text \<open>
  C2, as claimed: construction evicts every metadata entry that has expired, nulling
  and removing it from the raw store, the computed store and the metadata. The sweep
  deletes the three keys and then assigns null to each, so an evicted id is not
  removed: it stays in each store as a key with a null payload. Constructing at time
  5000 over the stored example leaves the key \<open>a\<close> in all three stores.
\<close>

theorem construct_leaves_null_entries_counterexample:
  "''a'' \<in> fst ` set (recordRaw (construct exPersist None exStored exStoredMeta 5000))
   \<and> ''a'' \<in> fst ` set (recordWithComputeds (construct exPersist None exStored exStoredMeta 5000))
   \<and> ''a'' \<in> fst ` set (cacheMeta (construct exPersist None exStored exStoredMeta 5000))"
  by code_simp

text \<open>
  C2, amended. Construction of a persisting manager runs \<open>cleanUpCache\<close> once, and
  after construction every id whose stored metadata has \<open>expires < now\<close> is
  tombstoned, and \<open>getRaw(id)\<close> returns null and changes nothing. The sweep leaves the
  three stores as they were at every id that has no expired metadata entry; and
  when no \<open>initial\<close> records are given, so does construction as a whole for the
  computed store and the metadata. (The keys of \<open>initial\<close> are distinct, as the keys
  of an object are.)
\<close>

theorem construct_sweeps_expired:
  assumes "persist cfg"
    and "case initial of None \<Rightarrow> True | Some i \<Rightarrow> distinct (map fst i)"
  shows "(\<forall>rid expires. (rid, Some expires) \<in> set persistedMeta \<and> expires < now \<longrightarrow>
            tombstoned (construct cfg initial persistedRecords persistedMeta now) rid
            \<and> manager_getRaw cfg rid (construct cfg initial persistedRecords persistedMeta now) =
                (JNull, construct cfg initial persistedRecords persistedMeta now))
       \<and> (\<forall>rid. (\<forall>e. (rid, Some e) \<in> set (cacheMeta st) \<longrightarrow> \<not> e < clock st) \<longrightarrow>
            map_of (recordRaw (cleanUpCache st)) rid = map_of (recordRaw st) rid
            \<and> map_of (recordWithComputeds (cleanUpCache st)) rid = map_of (recordWithComputeds st) rid
            \<and> map_of (cacheMeta (cleanUpCache st)) rid = map_of (cacheMeta st) rid)
       \<and> (\<forall>rid. initial = None \<and> (\<forall>e. (rid, Some e) \<in> set persistedMeta \<longrightarrow> \<not> e < now) \<longrightarrow>
            map_of (recordWithComputeds (construct cfg initial persistedRecords persistedMeta now)) rid
              = map_of persistedRecords rid
            \<and> map_of (cacheMeta (construct cfg initial persistedRecords persistedMeta now)) rid
              = map_of persistedMeta rid)"
proof (intro conjI allI impI)
  define st0 where "st0 = \<lparr>recordRaw = (case initial of None \<Rightarrow> [] | Some i \<Rightarrow> i),
      recordWithComputeds = persistedRecords, cacheMeta = [], watches = [], invoked = [], clock = now\<rparr>"
  define st2 where "st2 = (reconcile st0)\<lparr>cacheMeta := persistedMeta\<rparr>"
  define st3 where "st3 = cleanUpCache st2"
  have con: "construct cfg initial persistedRecords persistedMeta now =
      (case initial of None \<Rightarrow> st3
       | Some _ \<Rightarrow> foldl (\<lambda>s (rid, item). setAndWatchGetters cfg rid item s) st3 (recordRaw st3))"
    using assms(1) by (simp add: construct_def Let_def st0_def st2_def st3_def split: option.splits)
  have meta2: "cacheMeta st2 = persistedMeta" and clock2: "clock st2 = now"
    and comp2: "recordWithComputeds st2 = persistedRecords"
    by (simp_all add: st2_def reconcile_def st0_def)
  have "distinct (map fst (recordRaw st0))"
    using assms(2) by (simp add: st0_def split: option.splits)
  then have "distinct (map fst (recordRaw st2))"
    by (simp add: st2_def reconcile_def reconcile_fold_distinct)
  then have dist3: "distinct (map fst (recordRaw st3))"
    by (simp add: st3_def cleanUpCache_def sweep_distinct)
  {
    fix rid expires
    assume h: "(rid, Some expires) \<in> set persistedMeta \<and> expires < now"
    have t3: "tombstoned st3 rid"
      unfolding st3_def cleanUpCache_def using h by (intro sweep_evicts[of rid expires]) (simp_all add: meta2 clock2)
    have only: "\<forall>item. (rid, item) \<in> set (recordRaw st3) \<longrightarrow> item = None"
    proof (intro allI impI)
      fix item assume "(rid, item) \<in> set (recordRaw st3)"
      then have "map_of (recordRaw st3) rid = Some item" using dist3 by simp
      then show "item = None" using t3 by (simp add: tombstoned_def)
    qed
    show t: "tombstoned (construct cfg initial persistedRecords persistedMeta now) rid"
      unfolding con using t3 only by (auto split: option.splits intro: initLoop_keeps_tombstone)
    show "manager_getRaw cfg rid (construct cfg initial persistedRecords persistedMeta now) =
                (JNull, construct cfg initial persistedRecords persistedMeta now)"
      using t by (rule getRaw_tombstoned)
  }
  {
    fix rid
    assume "\<forall>e. (rid, Some e) \<in> set (cacheMeta st) \<longrightarrow> \<not> e < clock st"
    then have u: "map_of (recordRaw (cleanUpCache st)) rid = map_of (recordRaw st) rid
       \<and> map_of (recordWithComputeds (cleanUpCache st)) rid = map_of (recordWithComputeds st) rid
       \<and> map_of (cacheMeta (cleanUpCache st)) rid = map_of (cacheMeta st) rid"
      unfolding cleanUpCache_def by (rule sweep_untouched)
    show "map_of (recordRaw (cleanUpCache st)) rid = map_of (recordRaw st) rid" using u by simp
    show "map_of (recordWithComputeds (cleanUpCache st)) rid = map_of (recordWithComputeds st) rid" using u by simp
    show "map_of (cacheMeta (cleanUpCache st)) rid = map_of (cacheMeta st) rid" using u by simp
  }
  {
    fix rid
    assume h: "initial = None \<and> (\<forall>e. (rid, Some e) \<in> set persistedMeta \<longrightarrow> \<not> e < now)"
    then have "\<forall>e. (rid, Some e) \<in> set (cacheMeta st2) \<longrightarrow> \<not> e < clock st2"
      by (simp add: meta2 clock2)
    then have u: "map_of (recordWithComputeds (foldl cleanUpEntry st2 (cacheMeta st2))) rid = map_of (recordWithComputeds st2) rid
       \<and> map_of (cacheMeta (foldl cleanUpEntry st2 (cacheMeta st2))) rid = map_of (cacheMeta st2) rid"
      using sweep_untouched[of rid "cacheMeta st2" st2] by simp
    have c: "construct cfg initial persistedRecords persistedMeta now = foldl cleanUpEntry st2 (cacheMeta st2)"
      using h con by (simp add: st3_def cleanUpCache_def)
    show "map_of (recordWithComputeds (construct cfg initial persistedRecords persistedMeta now)) rid
              = map_of persistedRecords rid"
      unfolding c using u by (simp add: comp2)
    show "map_of (cacheMeta (construct cfg initial persistedRecords persistedMeta now)) rid
              = map_of persistedMeta rid"
      unfolding c using u by (simp add: meta2)
  }
qed

theorem construct_sweeps_expired_witness:
  "tombstoned (construct exPersist None exStored exStoredMeta 5000) ''a''
   \<and> manager_getRaw exPersist ''a'' (construct exPersist None exStored exStoredMeta 5000) =
       (JNull, construct exPersist None exStored exStoredMeta 5000)
   \<and> map_of (recordWithComputeds (construct exPersist None exStored exStoredMeta 5000)) ''b''
       = map_of exStored ''b''
   \<and> map_of (cacheMeta (construct exPersist None exStored exStoredMeta 5000)) ''b'' = Some (Some 9000)"
proof -
  have p: "persist exPersist" by (simp add: exPersist_def)
  have i: "case None :: fields option byId option of None \<Rightarrow> True | Some i \<Rightarrow> distinct (map fst i)" by simp
  have a: "(''a'', Some 4000) \<in> set exStoredMeta \<and> (4000::int) < 5000" by (simp add: exStoredMeta_def)
  have b: "\<forall>e. (''b'', Some e) \<in> set exStoredMeta \<longrightarrow> \<not> e < 5000" by (simp add: exStoredMeta_def)
  have mb: "map_of exStoredMeta ''b'' = Some (Some 9000)" by (simp add: exStoredMeta_def)
  note sweep = construct_sweeps_expired [OF p i, where persistedMeta = exStoredMeta
      and now = 5000 and persistedRecords = exStored and st = exEmpty]
  from sweep a have "tombstoned (construct exPersist None exStored exStoredMeta 5000) ''a''
      \<and> manager_getRaw exPersist ''a'' (construct exPersist None exStored exStoredMeta 5000) =
          (JNull, construct exPersist None exStored exStoredMeta 5000)"
    by blast
  moreover from sweep b have
    "map_of (recordWithComputeds (construct exPersist None exStored exStoredMeta 5000)) ''b''
       = map_of exStored ''b''
     \<and> map_of (cacheMeta (construct exPersist None exStored exStoredMeta 5000)) ''b''
       = map_of exStoredMeta ''b''"
    by blast
  ultimately show ?thesis by (simp add: mb)
qed


section \<open>Claims about subscriptions\<close>

text \<open>
  A manager with two derivations, the second declared under the name \<open>valueOf\<close>.
\<close>

definition exValueOf :: config where
  "exValueOf = \<lparr>persist = False, ttl = None,
                 computedGetters = [(''double'', exDouble), (''valueOf'', exDouble)]\<rparr>"

text \<open>
  C4. At most one watch per (id, field) is ever registered, and a request for a watch
  that is registered is a no-op: that much holds (\<open>watches_distinct_along_history\<close>
  below). But the claim goes on: across any number of sets of an id, the watch of each
  declared derivation field is created exactly once. The test for a registered watch is
  \<open>watches.get(id)?.[k]\<close>, a read of a plain object. Once the id has a row, because
  the watch of \<open>double\<close> has been entered, the read under \<open>valueOf\<close> finds the
  function that every object inherits, and takes it for a watch: after
  \<open>set({id: "a", x: 2})\<close>, and after a second \<open>set\<close>, the only watch is that of
  \<open>double\<close>, and the declared field \<open>valueOf\<close> has none.
\<close>

theorem declared_field_unwatched:
  "''valueOf'' \<in> fst ` set (computedGetters exValueOf)
   \<and> watches (manager_set exValueOf (exItem 2) (construct exValueOf None [] [] 0)) = [(''a'', ''double'')]
   \<and> existingWatcher (manager_set exValueOf (exItem 2) (construct exValueOf None [] [] 0)) ''a'' ''valueOf''
   \<and> count_list
        (watches (manager_set exValueOf (exItem 5)
                    (manager_set exValueOf (exItem 2) (construct exValueOf None [] [] 0))))
        (''a'', ''valueOf'') = 0"
  by code_simp




text \<open>
  What holds of the table of watches. In every state that a history reaches from a
  newly constructed manager, no (id, field) pair occurs twice among the watches
  created, and asking for a watch that is registered (\<open>watchGetter\<close>) changes
  nothing. And once the history contains a \<open>set\<close> of a record with id \<open>rid\<close>,
  every declared field that is not the name of a member of \<open>Object.prototype\<close> has
  exactly one watch for \<open>rid\<close>, however many sets and other operations follow.
\<close>

lemma watches_distinct_along_history:
  "distinct (watches (run cfg ops (construct cfg initial persistedRecords persistedMeta now)))
   \<and> (\<forall>rid k. (rid, k) \<in> set (watches st) \<longrightarrow> snd (watchGetter cfg rid k st) = st)"
proof (intro conjI allI impI)
  show "distinct (watches (run cfg ops (construct cfg initial persistedRecords persistedMeta now)))"
    by (rule run_table[where Q=distinct]) (simp_all add: construct_watches_distinct)
  fix rid k
  assume "(rid, k) \<in> set (watches st)"
  then show "snd (watchGetter cfg rid k st) = st"
    by (simp add: watchGetter_def existingWatcher_def)
qed

lemma one_watch_after_set:
  assumes "ops = before @ OpSet item # after" and "map_of item ''id'' = Some (JStr rid)"
    and "k \<in> fst ` set (computedGetters cfg)" and "\<not> inheritedName k"
  shows "count_list (watches (run cfg ops (construct cfg initial persistedRecords persistedMeta now)))
           (rid, k) = 1"
proof -
  let ?st0 = "construct cfg initial persistedRecords persistedMeta now"
  let ?s1 = "run cfg before ?st0"
  have run: "run cfg ops ?st0 = run cfg after (manager_set cfg item ?s1)"
    by (simp add: assms(1) run_append)
  have mem: "(rid, k) \<in> set (watches (manager_set cfg item ?s1))"
    using assms(2,3,4) by (intro manager_set_watches_all) simp_all
  have "(rid, k) \<in> set (watches (run cfg after (manager_set cfg item ?s1)))"
    by (rule run_table[where Q="\<lambda>ws. (rid, k) \<in> set ws"]) (simp_all add: mem)
  moreover have "distinct (watches (run cfg ops ?st0))"
    using watches_distinct_along_history by blast
  ultimately show ?thesis
    by (simp add: run distinct_count_one)
qed

section \<open>Claims about the exposed getters\<close>

text \<open>
  Two states of the example manager in which the watch of \<open>double\<close> for \<open>a\<close> has
  run and the record has then been set to \<open>x = 5\<close>, the watch not yet having run
  again: the cached value is 0 in the first and 4 in the second.
\<close>

definition exZeroCached :: state where
  "exZeroCached =
     manager_set exConfig (exItem 5)
       (fireWatch exConfig ''a'' ''double'' (manager_set exConfig (exItem 0) exEmpty))"

definition exFourCached :: state where
  "exFourCached =
     manager_set exConfig (exItem 5)
       (fireWatch exConfig ''a'' ''double'' (manager_set exConfig (exItem 2) exEmpty))"

text \<open>
  What holds of a getter call for an id whose watch is registered: with no extra
  argument and a truthy cached value it returns the cached value and the state as it
  was, so the derivation is not invoked; with extra arguments it invokes the
  derivation on the id and the arguments.
\<close>

lemma getter_truthy_cached:
  assumes "(rid, name) \<in> set (watches st)" and "map_of (computedGetters cfg) name = Some fn"
    and "truthy (cachedSlot st rid name)"
  shows "cacheMappedComputedGetters cfg name (JStr rid) [] st = Some (cachedSlot st rid name, st)"
  using assms by (simp add: cacheMappedComputedGetters_def isNullish_def Let_def existingWatcher_def)

lemma getter_extra_arguments:
  assumes "(rid, name) \<in> set (watches st)" and "map_of (computedGetters cfg) name = Some fn"
    and "args \<noteq> []"
  shows "cacheMappedComputedGetters cfg name (JStr rid) args st =
           Some (fn (recordRawGetter st) (JStr rid) args,
                 st\<lparr>invoked := invoked st @ [(name, JStr rid, args)]\<rparr>)"
  using assms
  by (simp add: cacheMappedComputedGetters_def isNullish_def Let_def invoke_def existingWatcher_def)

text \<open>
  C5. The getter is claimed to return the cached value without invoking the
  derivation whenever a cached value exists. The source tests the cached value for
  truth (\<open>args.length === 0 && cached\<close>), so a cached 0 is not returned: in the first
  state the call invokes the derivation (the log grows by one call) and returns the
  fresh 10, where in the second it returns the cached 4 and invokes nothing.
\<close>

theorem getter_falsy_cache_recomputes:
  "(''a'', ''double'') \<in> set (watches exZeroCached)
   \<and> cachedSlot exZeroCached ''a'' ''double'' = JNum 0
   \<and> cacheMappedComputedGetters exConfig ''double'' (JStr ''a'') [] exZeroCached =
       Some (JNum 10, exZeroCached\<lparr>invoked := invoked exZeroCached @ [(''double'', JStr ''a'', [])]\<rparr>)
   \<and> (''a'', ''double'') \<in> set (watches exFourCached)
   \<and> cachedSlot exFourCached ''a'' ''double'' = JNum 4
   \<and> cacheMappedComputedGetters exConfig ''double'' (JStr ''a'') [] exFourCached =
       Some (JNum 4, exFourCached)"
  by code_simp


section \<open>Claims about the consistency of the two stores\<close>









section \<open>Persistence: the tagged serialization of maps and sets\<close>






























subsection \<open>The round trip\<close>





lemma length_indexKeys [simp]: "length (indexKeys n) = n"
  by (simp add: indexKeys_def)

























































end
